theory Spec2Isabelle
  imports Complex_Main
begin

section \<open>Common values\<close>

text \<open>
  The program is a PyTorch training and generation script. Tensors are modelled as nested
  lists of reals: the reals idealise the rounding of 32-bit floats. The special float
  values the program can produce on the paths studied here are explicit: minus infinity
  written by the nucleus filter, NaN returned by a mean or a softmax over nothing, and the
  infinities and NaN of a division that leaves the float range.
  Every Python exception is a value of \<open>error\<close>.
\<close>

datatype error = ValueError | IndexError | RuntimeError | ZeroDivisionError | FileNotFoundError

type_synonym tensor1 = "real list"
type_synonym tensor2 = "real list list"
type_synonym tensor3 = "real list list list"

text \<open>Python list indexing \<open>xs[i]\<close>: a negative index counts from the end.\<close>

definition py_index :: "'a list \<Rightarrow> int \<Rightarrow> error + 'a" where
  "py_index xs i =
     (if 0 \<le> i \<and> i < int (length xs) then Inr (xs ! nat i)
      else if i < 0 \<and> - int (length xs) \<le> i then Inr (xs ! nat (int (length xs) + i))
      else Inl IndexError)"

text \<open>Python slice \<open>xs[:k]\<close>: a negative bound drops elements from the end.\<close>

definition py_slice_to :: "'a list \<Rightarrow> int \<Rightarrow> 'a list" where
  "py_slice_to xs k = (if 0 \<le> k then take (nat k) xs else take (nat (int (length xs) + k)) xs)"

section \<open>TokenizedTextDataset\<close>

text \<open>
  \<open>str.split()\<close> and \<open>int(...)\<close> on ASCII text. The white space characters are the
  ASCII ones Python's \<open>str.isspace\<close> accepts.
\<close>

definition is_space :: "char \<Rightarrow> bool" where
  "is_space c = (c \<in> set [CHR '' '', CHR 0x09, CHR 0x0A, CHR 0x0B, CHR 0x0C, CHR 0x0D,
                           CHR 0x1C, CHR 0x1D, CHR 0x1E, CHR 0x1F])"

definition strip :: "string \<Rightarrow> string" where
  "strip s = rev (dropWhile is_space (rev (dropWhile is_space s)))"

fun split_from :: "string \<Rightarrow> string \<Rightarrow> string list" where
  "split_from w [] = (if w = [] then [] else [w])"
| "split_from w (c # cs) =
     (if is_space c then (if w = [] then split_from [] cs else w # split_from [] cs)
      else split_from (w @ [c]) cs)"

definition str_split :: "string \<Rightarrow> string list" where
  "str_split s = split_from [] s"

definition is_digit :: "char \<Rightarrow> bool" where
  "is_digit c = (48 \<le> (of_char c :: nat) \<and> (of_char c :: nat) \<le> 57)"

definition digit_val :: "char \<Rightarrow> nat" where
  "digit_val c = of_char c - 48"

fun parse_digits :: "nat \<Rightarrow> string \<Rightarrow> nat option" where
  "parse_digits acc [] = Some acc"
| "parse_digits acc (c # cs) =
     (if is_digit c then parse_digits (10 * acc + digit_val c) cs
      else if c = CHR ''_'' then
        (case cs of [] \<Rightarrow> None | d # ds \<Rightarrow> if is_digit d then parse_digits acc cs else None)
      else None)"

text \<open>\<open>int(s)\<close>: optional sign, decimal digits, single underscores between digits.\<close>

definition py_int :: "string \<Rightarrow> error + int" where
  "py_int s =
     (let t = strip s;
          neg = (case t of [] \<Rightarrow> False | c # cs \<Rightarrow> c = CHR ''-'');
          body = (case t of [] \<Rightarrow> [] | c # cs \<Rightarrow> if c = CHR ''-'' \<or> c = CHR ''+'' then cs else t)
      in case body of
           [] \<Rightarrow> Inl ValueError
         | d # ds \<Rightarrow>
             if is_digit d then
               (case parse_digits 0 body of
                  None \<Rightarrow> Inl ValueError
                | Some n \<Rightarrow> Inr (if neg then - int n else int n))
             else Inl ValueError)"

text \<open>\<open>list(map(int, words))\<close>: the first word that is no integer raises.\<close>

fun map_int :: "string list \<Rightarrow> error + int list" where
  "map_int [] = Inr []"
| "map_int (w # ws) =
     (case py_int w of
        Inl e \<Rightarrow> Inl e
      | Inr n \<Rightarrow> (case map_int ws of Inl e \<Rightarrow> Inl e | Inr ns \<Rightarrow> Inr (n # ns)))"

text \<open>
  The dataset object with its lines in memory (\<open>in_memory=True\<close>, the default): \<open>data\<close>
  holds the stripped lines of the file. The on-disk variant reads the same line with
  \<open>seek\<close> and \<open>readline\<close> and then runs the same body.
\<close>

record dataset =
  data :: "string list"
  sequence_length :: int
  padding_token :: int

definition pad_or_truncate :: "int \<Rightarrow> int \<Rightarrow> int list \<Rightarrow> int list" where
  "pad_or_truncate S pad sequence =
     (if int (length sequence) < S
      then sequence @ replicate (nat (S - int (length sequence))) pad
      else py_slice_to sequence S)"

text \<open>
  The values of a 64-bit integer tensor: \<open>torch.tensor(..., dtype=torch.long)\<close> raises on
  an integer outside this range.
\<close>

definition in_int64 :: "int \<Rightarrow> bool" where
  "in_int64 t = (- (2 ^ 63) \<le> t \<and> t < 2 ^ 63)"

definition getitem :: "dataset \<Rightarrow> int \<Rightarrow> error + (int list \<times> int list \<times> real list)" where
  "getitem ds idx =
     (case py_index (data ds) idx of
        Inl e \<Rightarrow> Inl e
      | Inr line \<Rightarrow>
          (case map_int (str_split line) of
             Inl e \<Rightarrow> Inl e
           | Inr toks \<Rightarrow>
               (let sequence = pad_or_truncate (sequence_length ds) (padding_token ds) toks;
                    attention_mask =
                      map (\<lambda>token. if token \<noteq> padding_token ds then 1 else 0) sequence
                in if \<not> list_all in_int64 (butlast sequence) then Inl RuntimeError
                   else if \<not> list_all in_int64 (tl sequence) then Inl RuntimeError
                   else Inr (butlast sequence, tl sequence, butlast attention_mask))))"

section \<open>Sinusoidal positional encoding\<close>

text \<open>\<open>torch.arange(0, E, 2)\<close> mapped through the exponential.\<close>

definition div_term :: "nat \<Rightarrow> real list" where
  "div_term E = map (\<lambda>i. exp (real (2 * i) * (- ln 10000 / real E))) [0..<(E + 1) div 2]"

text \<open>
  The strided column assignment \<open>pe[:, start::2] = src\<close> on a table with \<open>E\<close> columns,
  where \<open>src\<close> has \<open>n_s\<close> columns. The shapes must agree, except that a single source
  column is broadcast; otherwise torch raises a RuntimeError.
\<close>

definition strided_columns :: "nat \<Rightarrow> nat \<Rightarrow> nat list" where
  "strided_columns start E = filter (\<lambda>c. start \<le> c \<and> even (c - start)) [0..<E]"

definition set_columns ::
  "nat \<Rightarrow> nat \<Rightarrow> nat \<Rightarrow> tensor2 \<Rightarrow> tensor2 \<Rightarrow> error + tensor2" where
  "set_columns start E n_s pe src =
     (let n_t = length (strided_columns start E)
      in if n_s = n_t \<or> n_s = 1 then
           Inr (map (\<lambda>(row, srow).
                  map (\<lambda>c. if start \<le> c \<and> even (c - start)
                            then (if n_s = n_t then srow ! ((c - start) div 2) else srow ! 0)
                            else row ! c) [0..<E])
                (zip pe src))
         else Inl RuntimeError)"

text \<open>
  The factor \<open>-math.log(10000.0) / embed_size\<close> is a Python division: it raises for
  \<open>embed_size = 0\<close>, before any column is computed.
\<close>

definition sinusoidal_positional_encoding :: "nat \<Rightarrow> nat \<Rightarrow> error + tensor3" where
  "sinusoidal_positional_encoding embed_size max_len =
     (let pe = replicate max_len (replicate embed_size 0);
          position = map real [0..<max_len]
      in if embed_size = 0 then Inl ZeroDivisionError
         else
           (let dt = div_term embed_size;
                sines = map (\<lambda>p. map (\<lambda>d. sin (p * d)) dt) position;
                cosines = map (\<lambda>p. map (\<lambda>d. cos (p * d)) dt) position
            in case set_columns 0 embed_size (length dt) pe sines of
                 Inl e \<Rightarrow> Inl e
               | Inr pe1 \<Rightarrow>
                   (case set_columns 1 embed_size (length dt) pe1 cosines of
                      Inl e \<Rightarrow> Inl e
                    | Inr pe2 \<Rightarrow> Inr [pe2])))"

section \<open>WarmupCosineLR\<close>

record scheduler =
  warmup_steps :: int
  total_steps :: int
  min_lr :: real
  last_epoch :: int
  base_lrs :: "real list"

text \<open>
  \<open>get_lr\<close>. The two divisions are Python divisions of integers and raise on a zero
  divisor. The cosine is taken of \<open>progress\<close> itself, as the source writes it.
\<close>

definition get_lr :: "scheduler \<Rightarrow> error + real list" where
  "get_lr s =
     (if last_epoch s < warmup_steps s then
        (if warmup_steps s = 0 then Inl ZeroDivisionError
         else
           (let lr_scale = real_of_int (last_epoch s) / real_of_int (warmup_steps s)
            in Inr (map (\<lambda>base_lr. base_lr * lr_scale + min_lr s) (base_lrs s))))
      else
        (if total_steps s - warmup_steps s = 0 then Inl ZeroDivisionError
         else
           (let progress = real_of_int (last_epoch s - warmup_steps s)
                             / real_of_int (total_steps s - warmup_steps s);
                lr_scale = 0.5 * (1.0 + cos progress)
            in Inr (map (\<lambda>base_lr. base_lr * lr_scale + min_lr s) (base_lrs s)))))"

section \<open>Mask expansion and masked loss of GPTModel\<close>

text \<open>
  \<open>t.view(d0, d1, d2)\<close> on the row-major data of a contiguous tensor: the number of
  elements must be \<open>d0 * d1 * d2\<close>.
\<close>

definition view3 :: "nat \<Rightarrow> nat \<Rightarrow> nat \<Rightarrow> real list \<Rightarrow> error + tensor3" where
  "view3 d0 d1 d2 flat =
     (if length flat = d0 * d1 * d2
      then Inr (map (\<lambda>i. map (\<lambda>j. take d2 (drop ((i * d1 + j) * d2) flat)) [0..<d1]) [0..<d0])
      else Inl RuntimeError)"

text \<open>
  \<open>create_mask\<close>: \<open>unsqueeze(1)\<close>, \<open>repeat(1, heads, 1)\<close>,
  \<open>view(batch_size * heads, 1, current_seq_length)\<close>, \<open>repeat(1, current_seq_length, 1)\<close>.
  The per-token mask is a list of \<open>batch_size\<close> rows.
\<close>

definition create_mask :: "nat \<Rightarrow> tensor2 \<Rightarrow> nat \<Rightarrow> error + tensor3" where
  "create_mask heads msk current_seq_length =
     (let batch_size = length msk;
          unsqueezed = map (\<lambda>row. [row]) msk;
          per_head = map (\<lambda>m. concat (replicate heads m)) unsqueezed
      in case view3 (batch_size * heads) 1 current_seq_length (concat (concat per_head)) of
           Inl e \<Rightarrow> Inl e
         | Inr viewed \<Rightarrow> Inr (map (\<lambda>m. concat (replicate current_seq_length m)) viewed))"

text \<open>
  The value of a scalar loss tensor: a number, or NaN (what torch returns for the mean of
  no elements).
\<close>

datatype loss = Finite real | NaN

text \<open>\<open>t.view(-1, V)\<close>: the row count is inferred, which needs \<open>V > 0\<close> dividing the size.\<close>

definition view_rows :: "nat \<Rightarrow> real list \<Rightarrow> error + tensor2" where
  "view_rows V flat =
     (if V = 0 \<or> length flat mod V \<noteq> 0 then Inl RuntimeError
      else Inr (map (\<lambda>r. take V (drop (r * V) flat)) [0..<length flat div V]))"

text \<open>Indexing with a boolean mask keeps the entries at the true positions.\<close>

definition select :: "bool list \<Rightarrow> 'a list \<Rightarrow> 'a list" where
  "select msk xs = map fst (filter snd (zip xs msk))"

definition ignore_index :: int where
  "ignore_index = - 100"

definition nll :: "real list \<Rightarrow> int \<Rightarrow> real" where
  "nll row target = ln (sum_list (map exp row)) - row ! nat target"

text \<open>
  \<open>F.cross_entropy\<close> with its defaults (mean reduction, \<open>ignore_index = -100\<close>) on rows of
  \<open>V\<close> logits: a target outside \<open>[0, V)\<close> other than the ignore index raises; the mean is
  taken over the targets that are not ignored, and is NaN when there is none.
\<close>

definition cross_entropy :: "nat \<Rightarrow> tensor2 \<Rightarrow> int list \<Rightarrow> error + loss" where
  "cross_entropy V rows targets =
     (if length rows \<noteq> length targets then Inl ValueError
      else if list_ex (\<lambda>t. t \<noteq> ignore_index \<and> (t < 0 \<or> int V \<le> t)) targets then Inl IndexError
      else
        (let kept = filter (\<lambda>(row, t). t \<noteq> ignore_index) (zip rows targets)
         in if kept = [] then Inr NaN
            else Inr (Finite (sum_list (map (\<lambda>(row, t). nll row t) kept) / real (length kept)))))"

text \<open>
  \<open>masked_loss\<close>. \<open>outputs\<close> is the tensor returned by \<open>forward\<close>, \<open>targets\<close> and
  \<open>masks\<close> are the batch as the data loader yields it; all three are flattened in their
  own row-major order.
\<close>

definition masked_loss :: "nat \<Rightarrow> tensor3 \<Rightarrow> int list list \<Rightarrow> tensor2 \<Rightarrow> error + loss" where
  "masked_loss vocab_size outputs targets masks =
     (case view_rows vocab_size (concat (concat outputs)) of
        Inl e \<Rightarrow> Inl e
      | Inr outputs_flat \<Rightarrow>
          (let targets_flat = concat targets;
               msk = map (\<lambda>m. m = 1) (concat masks)
           in if length msk \<noteq> length outputs_flat then Inl IndexError
              else if length msk \<noteq> length targets_flat then Inl IndexError
              else cross_entropy vocab_size (select msk outputs_flat) (select msk targets_flat)))"

section \<open>Nucleus filtering\<close>

text \<open>A logit: a number or minus infinity.\<close>

datatype logit = Fin real | NegInf

definition exp_logit :: "logit \<Rightarrow> real" where
  "exp_logit l = (case l of Fin x \<Rightarrow> exp x | NegInf \<Rightarrow> 0)"

definition fin_value :: "logit \<Rightarrow> real" where
  "fin_value l = (case l of Fin x \<Rightarrow> x | NegInf \<Rightarrow> 0)"

text \<open>
  \<open>F.softmax\<close> of a vector of logits. When every logit is minus infinity torch returns
  NaN in every place; \<open>None\<close> stands for that tensor.
\<close>

definition softmax :: "logit list \<Rightarrow> real list option" where
  "softmax ls =
     (if ls = [] then Some []
      else if sum_list (map exp_logit ls) = 0 then None
      else Some (map (\<lambda>l. exp_logit l / sum_list (map exp_logit ls)) ls))"

fun cumsum_from :: "real \<Rightarrow> real list \<Rightarrow> real list" where
  "cumsum_from acc [] = []"
| "cumsum_from acc (x # xs) = (acc + x) # cumsum_from (acc + x) xs"

definition cumsum :: "real list \<Rightarrow> real list" where
  "cumsum xs = cumsum_from 0 xs"

text \<open>
  The indices returned by \<open>torch.sort(logits, descending=True)\<close>. Torch leaves the order
  of equal logits open. The argument \<open>rank\<close> fixes it: equal logits come in the order of
  their rank (and of their index, for equal ranks). Every \<open>rank\<close> gives a descending
  order, and every descending order is the result for some \<open>rank\<close>. Minus infinity sorts
  last.
\<close>

definition argsort_descending :: "(nat \<Rightarrow> nat) \<Rightarrow> logit list \<Rightarrow> nat list" where
  "argsort_descending rank ls =
     (let by_rank = sort_key rank [0..<length ls];
          by_value = sort_key (\<lambda>i. - fin_value (ls ! i)) by_rank
      in filter (\<lambda>i. ls ! i \<noteq> NegInf) by_value @ filter (\<lambda>i. ls ! i = NegInf) by_value)"

text \<open>
  \<open>top_p_filtering\<close>. A comparison with NaN is false. The shift
  \<open>remove[1:] = remove[:-1]\<close> keeps entry 0 in place and moves every other entry one
  position to the right; \<open>remove[0] = 0\<close> needs a first entry.
\<close>

definition top_p_filtering ::
  "(nat \<Rightarrow> nat) \<Rightarrow> logit list \<Rightarrow> real \<Rightarrow> logit \<Rightarrow> error + logit list" where
  "top_p_filtering rank logits top_p filter_value =
     (let sorted_indices = argsort_descending rank logits;
          sorted_logits = map (\<lambda>i. logits ! i) sorted_indices;
          above = (case softmax sorted_logits of
                     None \<Rightarrow> map (\<lambda>l. False) sorted_logits
                   | Some probs \<Rightarrow> map (\<lambda>c. top_p < c) (cumsum probs));
          shifted = take 1 above @ butlast above
      in if shifted = [] then Inl IndexError
         else
           (let sorted_indices_to_remove = shifted[0 := False];
                indices_to_remove = select sorted_indices_to_remove sorted_indices
            in Inr (fold (\<lambda>i acc. acc[i := filter_value]) indices_to_remove logits)))"

section \<open>Parameters and modules of GPTModel\<close>

text \<open>
  Parameters live in a store: an address names one tensor, and a module holds the
  addresses of its parameters. Two modules that hold the same address share the tensor.
\<close>

datatype tensor = T1 tensor1 | T2 tensor2 | T3 tensor3

type_synonym store = "nat \<Rightarrow> tensor option"

type_synonym heap = "store \<times> nat"

definition alloc :: "tensor \<Rightarrow> heap \<Rightarrow> nat \<times> heap" where
  "alloc t h = (snd h, ((fst h)(snd h \<mapsto> t), Suc (snd h)))"

text \<open>
  What a run shows besides its result: the line \<open>Mask is None\<close> printed by \<open>forward\<close>,
  and each call of a block's attention module with the \<open>attn_mask\<close> it receives.
\<close>

datatype event = MaskIsNone | AttentionCall nat "tensor3 option"

type_synonym 'a run = "event list \<times> (error + 'a)"

definition lift :: "error + 'a \<Rightarrow> 'a run" where
  "lift r = ([], r)"

definition bind_run :: "'a run \<Rightarrow> ('a \<Rightarrow> 'b run) \<Rightarrow> 'b run" where
  "bind_run r f =
     (case snd r of
        Inl e \<Rightarrow> (fst r, Inl e)
      | Inr a \<Rightarrow> (fst r @ fst (f a), snd (f a)))"

text \<open>
  \<open>GPTTransformerBlock\<close>. Its sublayers are library modules; the block holds them as
  functions of the store (which has their weights) and of their input. A sublayer can
  raise on a shape it does not accept.
\<close>

record block =
  block_params :: "nat list"
  attention :: "store \<Rightarrow> tensor3 \<Rightarrow> tensor3 \<Rightarrow> tensor3 \<Rightarrow> tensor3 option \<Rightarrow> error + tensor3"
  dropout :: "tensor3 \<Rightarrow> tensor3"
  norm1 :: "store \<Rightarrow> tensor3 \<Rightarrow> tensor3"
  norm2 :: "store \<Rightarrow> tensor3 \<Rightarrow> tensor3"
  feed_forward :: "store \<Rightarrow> tensor3 \<Rightarrow> error + tensor3"

text \<open>The residual sum of two tensors of one shape.\<close>

definition add3 :: "tensor3 \<Rightarrow> tensor3 \<Rightarrow> error + tensor3" where
  "add3 a b =
     (if map (map length) a = map (map length) b
      then Inr (map (\<lambda>(p, q). map (\<lambda>(u, v). map (\<lambda>(s, t). s + t) (zip u v)) (zip p q)) (zip a b))
      else Inl RuntimeError)"

definition block_forward :: "block \<Rightarrow> nat \<Rightarrow> store \<Rightarrow> tensor3 \<Rightarrow> tensor3 option \<Rightarrow> tensor3 run" where
  "block_forward b idx st x msk =
     ([AttentionCall idx msk],
      case attention b st x x x msk of
        Inl e \<Rightarrow> Inl e
      | Inr attention_output \<Rightarrow>
          (case add3 (dropout b attention_output) x of
             Inl e \<Rightarrow> Inl e
           | Inr r1 \<Rightarrow>
               (let x1 = norm1 b st r1
                in case feed_forward b st x1 of
                     Inl e \<Rightarrow> Inl e
                   | Inr forward_output \<Rightarrow>
                       (case add3 (dropout b forward_output) x1 of
                          Inl e \<Rightarrow> Inl e
                        | Inr r2 \<Rightarrow> Inr (norm2 b st r2)))))"

text \<open>\<open>for layer in self.layers: x = layer(x, mask=mask)\<close>.\<close>

fun run_layers :: "block list \<Rightarrow> nat \<Rightarrow> store \<Rightarrow> tensor3 \<Rightarrow> tensor3 option \<Rightarrow> tensor3 run" where
  "run_layers [] idx st x msk = ([], Inr x)"
| "run_layers (b # bs) idx st x msk =
     bind_run (block_forward b idx st x msk) (\<lambda>x'. run_layers bs (Suc idx) st x' msk)"

text \<open>
  The model object: hyperparameters, the addresses of the embedding weight and of the
  positional table, the blocks, and the output layer (weight address and optional bias
  address). The field \<open>model_sequence_length\<close> is \<open>self.sequence_length\<close>.
\<close>

record gpt_model =
  embed_size :: nat
  heads :: nat
  vocab_size :: nat
  batch_size :: nat
  model_sequence_length :: nat
  max_epochs :: nat
  dataset_length :: nat
  embedding_weight :: nat
  pos_embbedings :: nat
  layers :: "block list"
  output_layer_weight :: nat
  output_layer_bias :: "nat option"

text \<open>\<open>nn.Embedding\<close>: a token outside the table raises.\<close>

definition embedding_lookup :: "store \<Rightarrow> nat \<Rightarrow> int list list \<Rightarrow> error + tensor3" where
  "embedding_lookup st w x =
     (case st w of
        Some (T2 W) \<Rightarrow>
          if list_all (list_all (\<lambda>t. 0 \<le> t \<and> t < int (length W))) x
          then Inr (map (map (\<lambda>t. W ! nat t)) x)
          else Inl IndexError
      | _ \<Rightarrow> Inl RuntimeError)"

text \<open>
  Broadcasting of two dimensions: equal, or one of them 1. \<open>pick\<close> reads an entry of a
  dimension that may be broadcast.
\<close>

definition compat :: "nat \<Rightarrow> nat \<Rightarrow> bool" where
  "compat a b = (a = b \<or> a = 1 \<or> b = 1)"

definition bdim :: "nat \<Rightarrow> nat \<Rightarrow> nat" where
  "bdim a b = (if a = 1 then b else a)"

definition pick :: "'a list \<Rightarrow> nat \<Rightarrow> 'a" where
  "pick xs i = (if length xs = 1 then xs ! 0 else xs ! i)"

text \<open>
  \<open>x + self.pos_embbedings[:, :current_seq_length, :]\<close> for \<open>x\<close> of shape
  \<open>(batch, seq, embed)\<close> and a positional table of shape \<open>(1, max_len, embed)\<close>.
\<close>

definition add_positional :: "store \<Rightarrow> nat \<Rightarrow> nat \<Rightarrow> tensor3 \<Rightarrow> error + tensor3" where
  "add_positional st p current_seq_length x =
     (case st p of
        Some (T3 [pe]) \<Rightarrow>
          (let sl = take current_seq_length pe
           in if list_all (\<lambda>xb. compat (length xb) (length sl)
                   \<and> list_all (\<lambda>i. compat (length (pick xb i)) (length (pick sl i)))
                        [0..<bdim (length xb) (length sl)]) x
              then Inr (map (\<lambda>xb.
                     map (\<lambda>i. map (\<lambda>e. pick (pick xb i) e + pick (pick sl i) e)
                                [0..<bdim (length (pick xb i)) (length (pick sl i))])
                       [0..<bdim (length xb) (length sl)]) x)
              else Inl RuntimeError)
      | _ \<Rightarrow> Inl RuntimeError)"

text \<open>\<open>x.size(1)\<close> of a batch given as a list of rows.\<close>

definition size1 :: "'a list list \<Rightarrow> nat" where
  "size1 x = (case x of [] \<Rightarrow> 0 | r # rs \<Rightarrow> length r)"

text \<open>\<open>nn.Linear\<close> applied to the last dimension, with the weight read from the store.\<close>

definition linear :: "store \<Rightarrow> nat \<Rightarrow> nat option \<Rightarrow> tensor3 \<Rightarrow> error + tensor3" where
  "linear st w bias x =
     (case st w of
        Some (T2 W) \<Rightarrow>
          (case (case bias of None \<Rightarrow> Some (map (\<lambda>row. 0) W)
                 | Some b \<Rightarrow> (case st b of Some (T1 bv) \<Rightarrow> Some bv | _ \<Rightarrow> None)) of
             None \<Rightarrow> Inl RuntimeError
           | Some bv \<Rightarrow>
               if length bv = length W
                  \<and> list_all (list_all (\<lambda>v. list_all (\<lambda>row. length row = length v) W)) x
               then Inr (map (map (\<lambda>v. map (\<lambda>(row, c). sum_list (map (\<lambda>(s, t). s * t) (zip v row)) + c)
                                         (zip W bv))) x)
               else Inl RuntimeError)
      | _ \<Rightarrow> Inl RuntimeError)"

text \<open>
  \<open>GPTModel.forward\<close>. The result has the sequence dimension first: \<open>x\<close> is transposed
  before the blocks and not transposed back.
\<close>

definition forward :: "gpt_model \<Rightarrow> store \<Rightarrow> int list list \<Rightarrow> tensor2 option \<Rightarrow> tensor3 run" where
  "forward m st x msk =
     bind_run (lift (embedding_lookup st (embedding_weight m) x)) (\<lambda>x1.
       let current_seq_length = size1 x1
       in bind_run (lift (add_positional st (pos_embbedings m) current_seq_length x1)) (\<lambda>x2.
            let x3 = transpose x2
            in bind_run
                 (case msk of
                    Some mk \<Rightarrow> lift (map_sum id Some (create_mask (heads m) mk current_seq_length))
                  | None \<Rightarrow> ([MaskIsNone], Inr None))
                 (\<lambda>expanded.
                    bind_run (run_layers (layers m) 0 st x3 expanded) (\<lambda>x4.
                      lift (linear st (output_layer_weight m) (output_layer_bias m) x4)))))"

text \<open>
  \<open>GPTModel.__init__\<close>. The training file is given by its lines (\<open>None\<close> when it cannot
  be opened), the random initial weights of the embedding and of the linear layer are
  arguments, and \<open>make_block\<close> builds one \<open>GPTTransformerBlock\<close>, allocating its
  parameters. The last step assigns the embedding's weight to the output layer.
\<close>

fun make_layers :: "(nat \<Rightarrow> heap \<Rightarrow> block \<times> heap) \<Rightarrow> nat \<Rightarrow> nat \<Rightarrow> heap \<Rightarrow> block list \<times> heap" where
  "make_layers make_block 0 idx h = ([], h)"
| "make_layers make_block (Suc n) idx h =
     (let (b, h1) = make_block idx h;
          (bs, h2) = make_layers make_block n (Suc idx) h1
      in (b # bs, h2))"

definition GPTModel_init ::
  "nat \<Rightarrow> nat \<Rightarrow> nat \<Rightarrow> nat \<Rightarrow> nat \<Rightarrow> nat \<Rightarrow> nat \<Rightarrow> string list option \<Rightarrow> tensor2 \<Rightarrow> tensor2
     \<Rightarrow> (nat \<Rightarrow> heap \<Rightarrow> block \<times> heap) \<Rightarrow> heap \<Rightarrow> error + gpt_model \<times> heap" where
  "GPTModel_init embed_size' num_layers heads' vocab_size' batch_size' sequence_length' max_epochs'
       training_file embedding_init linear_init make_block h =
     (case training_file of
        None \<Rightarrow> Inl FileNotFoundError
      | Some file_lines \<Rightarrow>
          (let (embedding_w, h1) = alloc (T2 embedding_init) h
           in case sinusoidal_positional_encoding embed_size' sequence_length' of
                Inl e \<Rightarrow> Inl e
              | Inr table \<Rightarrow>
                  (let (pos, h2) = alloc (T3 table) h1;
                       (blocks, h3) = make_layers make_block num_layers 0 h2;
                       (linear_w, h4) = alloc (T2 linear_init) h3;
                       m = \<lparr>embed_size = embed_size', heads = heads', vocab_size = vocab_size',
                            batch_size = batch_size', model_sequence_length = sequence_length',
                            max_epochs = max_epochs', dataset_length = length file_lines,
                            embedding_weight = embedding_w, pos_embbedings = pos,
                            layers = blocks, output_layer_weight = linear_w,
                            output_layer_bias = None\<rparr>
                   in Inr (m\<lparr>output_layer_weight := embedding_weight m\<rparr>, h4))))"

text \<open>
  \<open>self.parameters()\<close>, each tensor once, and one optimizer step: every parameter
  tensor is replaced in place by its update. \<open>upd\<close> stands for the AdamW rule with the
  gradients and optimizer state of that step.
\<close>

definition parameters :: "gpt_model \<Rightarrow> nat list" where
  "parameters m =
     remdups ([pos_embbedings m, embedding_weight m] @ concat (map block_params (layers m))
              @ [output_layer_weight m]
              @ (case output_layer_bias m of None \<Rightarrow> [] | Some b \<Rightarrow> [b]))"

definition optimizer_step :: "(nat \<Rightarrow> tensor \<Rightarrow> tensor) \<Rightarrow> gpt_model \<Rightarrow> store \<Rightarrow> store" where
  "optimizer_step upd m st =
     fold (\<lambda>a s. case s a of None \<Rightarrow> s | Some t \<Rightarrow> s(a \<mapsto> upd a t)) (parameters m) st"

section \<open>Text generation\<close>

record tokenizer =
  encode :: "string \<Rightarrow> int list"
  decode :: "int list \<Rightarrow> error + string"
  eot_token :: int

text \<open>\<open>outputs[0, -1, :]\<close>.\<close>

definition select_logits :: "tensor3 \<Rightarrow> error + tensor1" where
  "select_logits outputs =
     (case py_index outputs 0 of Inl e \<Rightarrow> Inl e | Inr plane \<Rightarrow> py_index plane (- 1))"

text \<open>
  The division of a logit by the temperature in 32-bit floats: a quotient beyond the
  largest float is an infinity, and a division by zero gives an infinity or, for
  \<open>0 / 0\<close>, NaN. \<open>temperature\<close> is the divisor as a 32-bit float.
\<close>

definition float_max :: real where
  "float_max = (2 - 1 / 2 ^ 23) * 2 ^ 127"

datatype quotient = Quot real | PlusInf | MinusInf | NotANumber

definition divide_float :: "real \<Rightarrow> real \<Rightarrow> quotient" where
  "divide_float l temperature =
     (if temperature = 0
      then (if 0 < l then PlusInf else if l < 0 then MinusInf else NotANumber)
      else if float_max < l / temperature then PlusInf
      else if l / temperature < - float_max then MinusInf
      else Quot (l / temperature))"

definition to_logit :: "quotient \<Rightarrow> logit" where
  "to_logit q = (case q of Quot x \<Rightarrow> Fin x | _ \<Rightarrow> NegInf)"

text \<open>
  \<open>Categorical(probabilities).sample()\<close>: the token is one of those with a positive
  probability; the number \<open>u\<close> from the random source selects which.
\<close>

definition sample_token :: "nat \<Rightarrow> real list \<Rightarrow> error + nat" where
  "sample_token u probabilities =
     (let support = filter (\<lambda>k. 0 < probabilities ! k) [0..<length probabilities]
      in if support = [] then Inl ValueError
         else Inr (support ! (u mod length support)))"

text \<open>
  One iteration of the loop up to the sampled token. \<open>rank i\<close> fixes the order in which
  the sort of iteration \<open>i\<close> returns equal logits, and \<open>draw i\<close> is the number the random
  source supplies to the sampling of iteration \<open>i\<close>. Logits that hold plus infinity
  or NaN pass the filter unchanged and give NaN probabilities, which \<open>Categorical\<close>
  refuses with a ValueError before a token is drawn; so do logits that are all minus
  infinity.
\<close>

definition decode_step ::
  "gpt_model \<Rightarrow> store \<Rightarrow> (nat \<Rightarrow> nat \<Rightarrow> nat) \<Rightarrow> (nat \<Rightarrow> nat) \<Rightarrow> real \<Rightarrow> real \<Rightarrow> nat \<Rightarrow> int list
     \<Rightarrow> int run" where
  "decode_step m st rank draw temperature top_p i input_ids =
     bind_run (forward m st [input_ids] None) (\<lambda>outputs.
       lift (case select_logits outputs of
               Inl e \<Rightarrow> Inl e
             | Inr row \<Rightarrow>
                 (let logits = map (\<lambda>l. divide_float l temperature) row
                  in if list_ex (\<lambda>q. q = PlusInf \<or> q = NotANumber) logits then Inl ValueError
                     else
                       (case top_p_filtering (rank i) (map to_logit logits) top_p NegInf of
                          Inl e \<Rightarrow> Inl e
                        | Inr filtered_logits \<Rightarrow>
                            (case softmax filtered_logits of
                               None \<Rightarrow> Inl ValueError
                             | Some probabilities \<Rightarrow>
                                 (case sample_token (draw i) probabilities of
                                    Inl e \<Rightarrow> Inl e
                                  | Inr next_token_id \<Rightarrow> Inr (int next_token_id)))))))"

text \<open>\<open>for i in range(model.sequence_length)\<close>, with \<open>n\<close> iterations left.\<close>

fun generate_loop ::
  "tokenizer \<Rightarrow> gpt_model \<Rightarrow> store \<Rightarrow> (nat \<Rightarrow> nat \<Rightarrow> nat) \<Rightarrow> (nat \<Rightarrow> nat) \<Rightarrow> real \<Rightarrow> real
     \<Rightarrow> nat \<Rightarrow> nat \<Rightarrow> int list \<Rightarrow> int list run" where
  "generate_loop tok m st rank draw temperature top_p 0 i input_ids = ([], Inr input_ids)"
| "generate_loop tok m st rank draw temperature top_p (Suc n) i input_ids =
     bind_run (decode_step m st rank draw temperature top_p i input_ids) (\<lambda>next_token_id.
       if next_token_id = eot_token tok then ([], Inr input_ids)
       else generate_loop tok m st rank draw temperature top_p n (Suc i)
              (input_ids @ [next_token_id]))"

definition generate_text ::
  "tokenizer \<Rightarrow> gpt_model \<Rightarrow> store \<Rightarrow> (nat \<Rightarrow> nat \<Rightarrow> nat) \<Rightarrow> (nat \<Rightarrow> nat) \<Rightarrow> string \<Rightarrow> real \<Rightarrow> real
     \<Rightarrow> string run" where
  "generate_text tok m st rank draw input_text temperature top_p =
     (if strip input_text = [] then ([], Inl ValueError)
      else
        (let input_ids = encode tok input_text
         in if input_ids = [] then ([], Inl ValueError)
            else bind_run
                   (generate_loop tok m st rank draw temperature top_p (model_sequence_length m) 0
                      input_ids)
                   (\<lambda>ids. lift (decode tok ids))))"

section \<open>A toy instance\<close>

text \<open>
  A tokenizer with the letters A and B and the end-of-text token 2, and a model with
  vocabulary size 3, embedding size 2, one head and one block whose attention and
  feed-forward sublayers return zeros, so that the block passes its input on. From
  every prompt that starts with A the logits are \<open>0, 0, ln 38\<close>: the probabilities of
  the three tokens are \<open>1/40, 1/40, 38/40\<close>. They serve as concrete inputs.
\<close>

definition toy_tokenizer :: tokenizer where
  "toy_tokenizer =
     \<lparr>encode = map (\<lambda>c. if c = CHR ''A'' then 0 else 1),
      decode = (\<lambda>ids. Inr (map (\<lambda>t. if t = 0 then CHR ''A'' else if t = 1 then CHR ''B'' else CHR ''.'') ids)),
      eot_token = 2\<rparr>"

definition toy_block :: block where
  "toy_block =
     \<lparr>block_params = [],
      attention = (\<lambda>st q k v msk. Inr (map (map (map (\<lambda>x. 0))) q)),
      dropout = (\<lambda>x. x),
      norm1 = (\<lambda>st x. x), norm2 = (\<lambda>st x. x),
      feed_forward = (\<lambda>st x. Inr (map (map (map (\<lambda>x. 0))) x))\<rparr>"

definition toy_store :: store where
  "toy_store = [0 \<mapsto> T2 [[0, 0], [0, 0], [ln 38, 0]], 1 \<mapsto> T3 [[[1, 0], [1, 0]]]]"

definition toy_model :: gpt_model where
  "toy_model =
     \<lparr>embed_size = 2, heads = 1, vocab_size = 3, batch_size = 1, model_sequence_length = 2,
      max_epochs = 1, dataset_length = 1, embedding_weight = 0, pos_embbedings = 1,
      layers = [toy_block], output_layer_weight = 0, output_layer_bias = None\<rparr>"

text \<open>
  The table the proofs compare the encoder with: column \<open>c\<close> of row \<open>pos\<close> holds the
  sine (even \<open>c\<close>) or the cosine (odd \<open>c\<close>) of \<open>pos\<close> times the matching \<open>div_term\<close>.
\<close>

definition encoding_table :: "nat \<Rightarrow> nat \<Rightarrow> tensor2" where
  "encoding_table E L =
     map (\<lambda>pos. map (\<lambda>c. if even c then sin (real pos * div_term E ! (c div 2))
                            else cos (real pos * div_term E ! ((c - 1) div 2))) [0..<E]) [0..<L]"

section \<open>Properties of the dataset\<close>

lemma pad_or_truncate_length: "0 \<le> S \<Longrightarrow> length (pad_or_truncate S p xs) = nat S"
  by (auto simp: pad_or_truncate_def py_slice_to_def)

lemma pad_or_truncate_nonneg:
  "0 \<le> S \<Longrightarrow> pad_or_truncate S p xs =
     (if int (length xs) < S then xs @ replicate (nat S - length xs) p else take (nat S) xs)"
  by (auto simp: pad_or_truncate_def py_slice_to_def nat_diff_distrib)

lemma tl_as_slice: "tl xs = take (length xs - 1) (drop 1 xs)"
  by (simp add: drop_Suc)

lemma in_int64_pad_or_truncate:
  assumes "\<forall>t\<in>set xs. in_int64 t" and "in_int64 p"
  shows "list_all in_int64 (pad_or_truncate S p xs)"
  using assms
  by (auto simp: pad_or_truncate_def py_slice_to_def list_all_iff dest: in_set_takeD)

text \<open>
  Claim C8. For a line that parses to the integers \<open>toks\<close>, all of them and the
  padding token being 64-bit integers, and a sequence length \<open>S \<ge> 0\<close>, the item is built
  from \<open>tokens\<close>, the line right-padded with the padding token or truncated to exactly
  \<open>S\<close> entries: the input is \<open>tokens[0:S-1]\<close>, the target is \<open>tokens[1:S]\<close>, and the mask
  marks the non-padding entries of the input slice.
\<close>

theorem getitem_split:
  assumes "py_index (data ds) idx = Inr line"
      and "map_int (str_split line) = Inr toks"
      and "0 \<le> sequence_length ds"
      and "\<forall>t\<in>set toks. in_int64 t"
      and "in_int64 (padding_token ds)"
  shows "\<exists>tokens.
           tokens = (if int (length toks) < sequence_length ds
                     then toks @ replicate (nat (sequence_length ds) - length toks) (padding_token ds)
                     else take (nat (sequence_length ds)) toks)
         \<and> length tokens = nat (sequence_length ds)
         \<and> getitem ds idx =
             Inr (take (nat (sequence_length ds) - 1) tokens,
                  take (nat (sequence_length ds) - 1) (drop 1 tokens),
                  map (\<lambda>token. if token \<noteq> padding_token ds then 1 else 0)
                      (take (nat (sequence_length ds) - 1) tokens))"
proof -
  define S where "S = sequence_length ds"
  define tokens where "tokens = pad_or_truncate S (padding_token ds) toks"
  have len: "length tokens = nat S"
    using assms(3) by (simp add: tokens_def S_def pad_or_truncate_length)
  have shape: "tokens = (if int (length toks) < S
                     then toks @ replicate (nat S - length toks) (padding_token ds)
                     else take (nat S) toks)"
    using assms(3) unfolding tokens_def S_def by (rule pad_or_truncate_nonneg)
  have b: "butlast tokens = take (nat S - 1) tokens"
    using len by (simp add: butlast_conv_take)
  have t: "tl tokens = take (nat S - 1) (drop 1 tokens)"
    using len tl_as_slice [of tokens] by simp
  have "list_all in_int64 tokens"
    unfolding tokens_def using assms(4,5) by (rule in_int64_pad_or_truncate)
  then have fits: "list_all in_int64 (butlast tokens)" "list_all in_int64 (tl tokens)"
    by (cases tokens; auto simp: list_all_iff dest: in_set_butlastD)+
  have "getitem ds idx =
          Inr (butlast tokens, tl tokens,
               butlast (map (\<lambda>token. if token \<noteq> padding_token ds then 1 else 0) tokens))"
    using assms(1,2) fits by (simp add: getitem_def tokens_def S_def Let_def)
  then have "getitem ds idx =
          Inr (take (nat S - 1) tokens, take (nat S - 1) (drop 1 tokens),
               map (\<lambda>token. if token \<noteq> padding_token ds then 1 else 0) (take (nat S - 1) tokens))"
    by (simp add: b t map_butlast [symmetric])
  with len shape show ?thesis unfolding S_def by blast
qed

lemma parse_example: "map_int (str_split ''1 2 3 4 5'') = Inr [1, 2, 3, 4, 5]"
  by (simp add: str_split_def is_space_def py_int_def strip_def is_digit_def digit_val_def)

lemma getitem_too_large:
  "getitem \<lparr>data = [''9223372036854775808 1''], sequence_length = 2, padding_token = 0\<rparr> 0
     = Inl RuntimeError"
  by (simp add: getitem_def py_index_def str_split_def is_space_def py_int_def strip_def
        is_digit_def digit_val_def pad_or_truncate_def py_slice_to_def in_int64_def)

text \<open>The line \<open>1 2 3 4 5\<close> with sequence length 4: input 1 2 3, target 2 3 4.\<close>

theorem getitem_split_witness:
  "py_index (data \<lparr>data = [''1 2 3 4 5''], sequence_length = 4, padding_token = 0\<rparr>) 0
     = Inr ''1 2 3 4 5''
   \<and> map_int (str_split ''1 2 3 4 5'') = Inr [1, 2, 3, 4, 5]
   \<and> (0::int) \<le> sequence_length \<lparr>data = [''1 2 3 4 5''], sequence_length = 4, padding_token = 0\<rparr>
   \<and> list_all in_int64 [1, 2, 3, 4, 5]
   \<and> in_int64 (padding_token \<lparr>data = [''1 2 3 4 5''], sequence_length = 4, padding_token = 0\<rparr>)
   \<and> getitem \<lparr>data = [''1 2 3 4 5''], sequence_length = 4, padding_token = 0\<rparr> 0
       = Inr ([1, 2, 3], [2, 3, 4], [1, 1, 1])"
proof -
  let ?ds = "\<lparr>data = [''1 2 3 4 5''], sequence_length = 4, padding_token = 0\<rparr>"
  have h1: "py_index (data ?ds) 0 = Inr ''1 2 3 4 5''"
    by (simp add: py_index_def)
  have h3: "0 \<le> sequence_length ?ds"
    by simp
  have h4: "\<forall>t\<in>set [1, 2, 3, 4, 5]. in_int64 t"
    by (simp add: in_int64_def)
  have h5: "in_int64 (padding_token ?ds)"
    by (simp add: in_int64_def)
  show ?thesis
    using h1 parse_example h3 h4 h5 getitem_split [OF h1 parse_example h3 h4 h5]
    by (simp add: numeral_eq_Suc)
qed

section \<open>Properties of the positional encoding\<close>

lemma strided_columns_0: "strided_columns 0 E = filter even [0..<E]"
  by (simp add: strided_columns_def)

lemma strided_columns_1: "strided_columns (Suc 0) E = filter odd [0..<E]"
  unfolding strided_columns_def
  by (rule filter_cong) (auto elim: oddE)

lemma length_filter_even: "length (filter even [0..<E]) = (E + 1) div 2"
  by (induction E) auto

lemma length_filter_odd: "length (filter odd [0..<E]) = E div 2"
  by (induction E) auto

lemma length_div_term: "length (div_term E) = (E + 1) div 2"
  by (simp add: div_term_def)

lemma div_term_nth:
  "i < (E + 1) div 2 \<Longrightarrow> div_term E ! i = 1 / (10000 powr (real (2 * i) / real E))"
  by (simp add: div_term_def powr_def exp_minus field_simps)

lemma set_columns_same:
  assumes "n_s = length (strided_columns start E)"
  shows "set_columns start E n_s pe src =
     Inr (map (\<lambda>(row, srow).
            map (\<lambda>c. if start \<le> c \<and> even (c - start) then srow ! ((c - start) div 2) else row ! c)
              [0..<E]) (zip pe src))"
  using assms by (auto simp: set_columns_def Let_def)

lemma replicate_as_map: "replicate L r = map (\<lambda>_. r) [0..<L]"
  by (simp add: map_replicate_const)

lemma map2_over_upt:
  "map h (zip (map f [0..<L]) (map g [0..<L])) = map (\<lambda>i. h (f i, g i)) [0..<L]"
  by (simp add: zip_map_map zip_same_conv_map)

lemma half_column: "c < E \<Longrightarrow> c div 2 < length (div_term E)"
  by (simp add: length_div_term)

lemma sines_into_table:
  assumes "0 < E"
  shows "set_columns 0 E (length (div_term E)) (replicate L (replicate E 0))
              (map (\<lambda>p. map (\<lambda>d. sin (p * d)) (div_term E)) (map real [0..<L]))
         = Inr (map (\<lambda>pos. map (\<lambda>c. if even c then sin (real pos * div_term E ! (c div 2)) else 0)
                            [0..<E]) [0..<L])"
proof -
  have n0: "length (div_term E) = length (strided_columns 0 E)"
    by (simp add: length_div_term strided_columns_0 length_filter_even)
  show ?thesis
    unfolding set_columns_same [OF n0] replicate_as_map [of L] map_map map2_over_upt
    by (auto simp: o_def half_column)
qed

lemma encoding_even:
  assumes "even E" and "0 < E"
  shows "sinusoidal_positional_encoding E L = Inr [encoding_table E L]"
proof -
  define dt where "dt = div_term E"
  define pe1 :: tensor2 where
    "pe1 = map (\<lambda>pos. map (\<lambda>c. if even c then sin (real pos * dt ! (c div 2)) else 0) [0..<E]) [0..<L]"
  have n1: "length dt = length (strided_columns 1 E)"
    unfolding One_nat_def
    using assms by (auto simp add: dt_def length_div_term strided_columns_1 length_filter_odd elim: evenE)
  have half: "c div 2 < length dt" if "c < E" for c
    using that unfolding dt_def by (rule half_column)
  have s0: "set_columns 0 E (length dt) (replicate L (replicate E 0))
              (map (\<lambda>p. map (\<lambda>d. sin (p * d)) dt) (map real [0..<L])) = Inr pe1"
    unfolding dt_def pe1_def using assms(2) by (rule sines_into_table)
  have s1: "set_columns 1 E (length dt) pe1
              (map (\<lambda>p. map (\<lambda>d. cos (p * d)) dt) (map real [0..<L])) = Inr (encoding_table E L)"
    unfolding set_columns_same [OF n1] pe1_def map_map map2_over_upt encoding_table_def dt_def [symmetric]
    by (auto simp: half o_def elim!: oddE)
  show ?thesis
    unfolding sinusoidal_positional_encoding_def Let_def dt_def [symmetric]
    using assms(2) by (simp only: s0 s1 sum.case) simp
qed

lemma encoding_one: "sinusoidal_positional_encoding 1 L = Inr [encoding_table 1 L]"
proof -
  have s0: "set_columns 0 1 (length (div_term 1)) (replicate L (replicate 1 0))
              (map (\<lambda>p. map (\<lambda>d. sin (p * d)) (div_term 1)) (map real [0..<L]))
         = Inr (map (\<lambda>pos. map (\<lambda>c. if even c then sin (real pos * div_term 1 ! (c div 2)) else 0)
                            [0..<1]) [0..<L])"
    by (rule sines_into_table) simp
  have s1: "set_columns 1 1 (length (div_term 1))
              (map (\<lambda>pos. map (\<lambda>c. if even c then sin (real pos * div_term 1 ! (c div 2)) else 0)
                            [0..<1]) [0..<L])
              (map (\<lambda>p. map (\<lambda>d. cos (p * d)) (div_term 1)) (map real [0..<L]))
         = Inr (encoding_table 1 L)"
    unfolding set_columns_def Let_def map_map map2_over_upt encoding_table_def
    by (simp add: length_div_term strided_columns_def o_def)
  show ?thesis
    unfolding sinusoidal_positional_encoding_def Let_def
    by (simp only: s0 s1 sum.case) simp
qed

lemma encoding_odd:
  assumes "odd E" and "3 \<le> E"
  shows "sinusoidal_positional_encoding E L = Inl RuntimeError"
proof -
  have pos: "0 < E" using assms(2) by simp
  have s0: "set_columns 0 E (length (div_term E)) (replicate L (replicate E 0))
              (map (\<lambda>p. map (\<lambda>d. sin (p * d)) (div_term E)) (map real [0..<L]))
         = Inr (map (\<lambda>pos. map (\<lambda>c. if even c then sin (real pos * div_term E ! (c div 2)) else 0)
                            [0..<E]) [0..<L])"
    using pos by (rule sines_into_table)
  have "length (div_term E) \<noteq> length (strided_columns 1 E)" "length (div_term E) \<noteq> 1"
    unfolding One_nat_def
    using assms by (auto simp: length_div_term strided_columns_1 length_filter_odd elim!: oddE)
  then have s1: "set_columns 1 E (length (div_term E)) pe1 cosines = Inl RuntimeError" for pe1 cosines
    by (simp add: set_columns_def)
  show ?thesis
    unfolding sinusoidal_positional_encoding_def Let_def
    using pos by (simp only: s0 s1 sum.case) simp
qed

lemma encoding_zero: "sinusoidal_positional_encoding 0 L = Inl ZeroDivisionError"
  by (simp add: sinusoidal_positional_encoding_def)

text \<open>
  Claim C9, as stated, fails for an odd embedding size of 3 or more (the sine block has
  one column more than the odd-column slice that receives the cosines, and the
  assignment raises) and for the embedding size 0 (the division raises).
\<close>

theorem positional_encoding_counterexample:
  "sinusoidal_positional_encoding 3 1 = Inl RuntimeError
   \<and> sinusoidal_positional_encoding 0 1 = Inl ZeroDivisionError"
proof -
  have "odd (3::nat)" "(3::nat) \<le> 3" by simp_all
  then have "sinusoidal_positional_encoding 3 1 = Inl RuntimeError" by (rule encoding_odd)
  then show ?thesis by (simp add: encoding_zero)
qed

text \<open>
  Claim C9, amended. For every \<open>E\<close> that is positive and even, or 1, and every \<open>L\<close>, the
  encoder returns a table of shape \<open>(1, L, E)\<close> with
  \<open>P[0, pos, 2i] = sin (pos / 10000^(2i/E))\<close> and
  \<open>P[0, pos, 2i+1] = cos (pos / 10000^(2i/E))\<close> in all its columns; the result is a
  function of \<open>E\<close> and \<open>L\<close> alone. For every odd \<open>E \<ge> 3\<close> the encoder raises a shape
  error, and for \<open>E = 0\<close> a division error.
\<close>

theorem positional_encoding_table:
  "((0 < E \<and> even E) \<or> E = 1 \<longrightarrow>
      (\<exists>P. sinusoidal_positional_encoding E L = Inr [P]
           \<and> length P = L
           \<and> (\<forall>pos<L. length (P ! pos) = E
                \<and> (\<forall>i. 2 * i < E \<longrightarrow>
                      P ! pos ! (2 * i) = sin (real pos / 10000 powr (real (2 * i) / real E)))
                \<and> (\<forall>i. 2 * i + 1 < E \<longrightarrow>
                      P ! pos ! (2 * i + 1) = cos (real pos / 10000 powr (real (2 * i) / real E))))))
   \<and> (odd E \<and> 3 \<le> E \<longrightarrow> sinusoidal_positional_encoding E L = Inl RuntimeError)
   \<and> (E = 0 \<longrightarrow> sinusoidal_positional_encoding E L = Inl ZeroDivisionError)"
proof (intro conjI impI)
  assume E: "(0 < E \<and> even E) \<or> E = 1"
  then have run: "sinusoidal_positional_encoding E L = Inr [encoding_table E L]"
    using encoding_even [of E L] encoding_one [of L] by auto
  have rows: "length (encoding_table E L ! pos) = E
        \<and> (\<forall>i. 2 * i < E \<longrightarrow>
              encoding_table E L ! pos ! (2 * i) = sin (real pos / 10000 powr (real (2 * i) / real E)))
        \<and> (\<forall>i. 2 * i + 1 < E \<longrightarrow>
              encoding_table E L ! pos ! (2 * i + 1) = cos (real pos / 10000 powr (real (2 * i) / real E)))"
    if p: "pos < L" for pos
  proof (intro conjI allI impI)
    show "length (encoding_table E L ! pos) = E"
      using p by (simp add: encoding_table_def)
  next
    fix i assume i: "2 * i < E"
    then have "div_term E ! i = 1 / (10000 powr (real (2 * i) / real E))"
      by (intro div_term_nth) linarith
    with p i show "encoding_table E L ! pos ! (2 * i)
        = sin (real pos / 10000 powr (real (2 * i) / real E))"
      by (simp add: encoding_table_def)
  next
    fix i assume i: "2 * i + 1 < E"
    then have "div_term E ! i = 1 / (10000 powr (real (2 * i) / real E))"
      by (intro div_term_nth) linarith
    with p i show "encoding_table E L ! pos ! (2 * i + 1)
        = cos (real pos / 10000 powr (real (2 * i) / real E))"
      by (simp add: encoding_table_def)
  qed
  have "length (encoding_table E L) = L" by (simp add: encoding_table_def)
  with run rows
  show "\<exists>P. sinusoidal_positional_encoding E L = Inr [P]
           \<and> length P = L
           \<and> (\<forall>pos<L. length (P ! pos) = E
                \<and> (\<forall>i. 2 * i < E \<longrightarrow>
                      P ! pos ! (2 * i) = sin (real pos / 10000 powr (real (2 * i) / real E)))
                \<and> (\<forall>i. 2 * i + 1 < E \<longrightarrow>
                      P ! pos ! (2 * i + 1) = cos (real pos / 10000 powr (real (2 * i) / real E))))"
    by blast
next
  assume "odd E \<and> 3 \<le> E"
  then show "sinusoidal_positional_encoding E L = Inl RuntimeError"
    using encoding_odd by blast
next
  assume "E = 0"
  then show "sinusoidal_positional_encoding E L = Inl ZeroDivisionError"
    by (simp add: encoding_zero)
qed

theorem positional_encoding_table_witness:
  "(\<exists>P. sinusoidal_positional_encoding 2 2 = Inr [P] \<and> length P = 2
          \<and> length (P ! 1) = 2 \<and> P ! 1 ! 0 = sin 1 \<and> P ! 1 ! 1 = cos 1)
   \<and> (\<exists>P. sinusoidal_positional_encoding 1 2 = Inr [P] \<and> length P = 2
          \<and> length (P ! 1) = 1 \<and> P ! 1 ! 0 = sin 1)
   \<and> sinusoidal_positional_encoding 5 2 = Inl RuntimeError
   \<and> sinusoidal_positional_encoding 0 2 = Inl ZeroDivisionError"
proof -
  obtain P where P: "sinusoidal_positional_encoding 2 2 = Inr [P]" "length P = 2"
    and rows: "\<forall>pos<2. length (P ! pos) = 2
                \<and> (\<forall>i. 2 * i < 2 \<longrightarrow>
                      P ! pos ! (2 * i) = sin (real pos / 10000 powr (real (2 * i) / real 2)))
                \<and> (\<forall>i. 2 * i + 1 < 2 \<longrightarrow>
                      P ! pos ! (2 * i + 1) = cos (real pos / 10000 powr (real (2 * i) / real 2)))"
    using positional_encoding_table [of 2 2] by auto
  from rows have r1: "length (P ! 1) = 2
                \<and> (\<forall>i. 2 * i < 2 \<longrightarrow>
                      P ! 1 ! (2 * i) = sin (real 1 / 10000 powr (real (2 * i) / real 2)))
                \<and> (\<forall>i. 2 * i + 1 < 2 \<longrightarrow>
                      P ! 1 ! (2 * i + 1) = cos (real 1 / 10000 powr (real (2 * i) / real 2)))"
    by (rule allE [where x = 1]) simp
  then have "P ! 1 ! (2 * 0) = sin (real 1 / 10000 powr (real (2 * 0) / real 2))"
       and "P ! 1 ! (2 * 0 + 1) = cos (real 1 / 10000 powr (real (2 * 0) / real 2))"
    by simp_all
  with r1 P have a: "\<exists>P. sinusoidal_positional_encoding 2 2 = Inr [P] \<and> length P = 2
          \<and> length (P ! 1) = 2 \<and> P ! 1 ! 0 = sin 1 \<and> P ! 1 ! 1 = cos 1"
    by auto
  obtain Q where Q: "sinusoidal_positional_encoding 1 2 = Inr [Q]" "length Q = 2"
    and qrows: "\<forall>pos<2. length (Q ! pos) = 1
                \<and> (\<forall>i. 2 * i < 1 \<longrightarrow>
                      Q ! pos ! (2 * i) = sin (real pos / 10000 powr (real (2 * i) / real 1)))
                \<and> (\<forall>i. 2 * i + 1 < 1 \<longrightarrow>
                      Q ! pos ! (2 * i + 1) = cos (real pos / 10000 powr (real (2 * i) / real 1)))"
    using positional_encoding_table [of 1 2] by auto
  from qrows have q1: "length (Q ! 1) = 1
                \<and> (\<forall>i. 2 * i < 1 \<longrightarrow>
                      Q ! 1 ! (2 * i) = sin (real 1 / 10000 powr (real (2 * i) / real 1)))"
    by (rule allE [where x = 1]) simp
  then have "Q ! 1 ! (2 * 0) = sin (real 1 / 10000 powr (real (2 * 0) / real 1))"
    by simp
  with q1 Q have b: "\<exists>P. sinusoidal_positional_encoding 1 2 = Inr [P] \<and> length P = 2
          \<and> length (P ! 1) = 1 \<and> P ! 1 ! 0 = sin 1"
    by auto
  have c: "sinusoidal_positional_encoding 5 2 = Inl RuntimeError"
    using positional_encoding_table [of 5 2] by simp
  have d: "sinusoidal_positional_encoding 0 2 = Inl ZeroDivisionError"
    using positional_encoding_table [of 0 2] by simp
  from a b c d show ?thesis by blast
qed

section \<open>Properties of the scheduler\<close>

lemma cos_one_gt_minus_one: "- 1 < cos (1::real)"
proof -
  have pos: "0 < sin (1::real)" by (rule sin_gt_zero_02) simp_all
  have "cos (1::real) \<noteq> - 1"
  proof
    assume "cos (1::real) = - 1"
    moreover have "(sin (1::real))\<^sup>2 = 1 - (cos 1)\<^sup>2" by (rule sin_squared_eq)
    ultimately have "sin (1::real) = 0" by simp
    with pos show False by simp
  qed
  moreover have "- 1 \<le> cos (1::real)" by (rule cos_ge_minus_one)
  ultimately show ?thesis by linarith
qed

lemma get_lr_at_zero:
  "0 < warmup_steps s \<Longrightarrow> last_epoch s = 0 \<Longrightarrow>
   get_lr s = Inr (map (\<lambda>base_lr. min_lr s) (base_lrs s))"
  by (simp add: get_lr_def)

lemma get_lr_at_warmup:
  "last_epoch s = warmup_steps s \<Longrightarrow> total_steps s \<noteq> warmup_steps s \<Longrightarrow>
   get_lr s = Inr (map (\<lambda>base_lr. base_lr + min_lr s) (base_lrs s))"
  by (simp add: get_lr_def)

lemma get_lr_at_total:
  "last_epoch s = total_steps s \<Longrightarrow> warmup_steps s < total_steps s \<Longrightarrow>
   get_lr s = Inr (map (\<lambda>base_lr. base_lr * (0.5 * (1 + cos 1)) + min_lr s) (base_lrs s))"
  by (simp add: get_lr_def)

text \<open>
  Claim C2 at \<open>warmup_steps = 2\<close>, \<open>total_steps = 20\<close> (ten percent warm-up, as
  \<open>configure_optimizers\<close> sets it), step \<open>t = 20 = total_steps\<close>, base rate \<open>1/1000\<close> and
  \<open>min_lr = 1/1000000\<close>: the claim gives \<open>min_lr\<close>; the code takes the cosine of
  \<open>progress = 1\<close> without the factor \<open>pi\<close> and returns a rate that is not \<open>min_lr\<close>.
\<close>

theorem get_lr_at_total_steps:
  "get_lr \<lparr>warmup_steps = 2, total_steps = 20, min_lr = 1 / 1000000, last_epoch = 20,
            base_lrs = [1 / 1000]\<rparr>
     = Inr [1 / 1000 * (0.5 * (1 + cos 1)) + 1 / 1000000]
   \<and> 1 / 1000 * (0.5 * (1 + cos 1)) + 1 / 1000000 \<noteq> (1 / 1000000 :: real)"
  using cos_one_gt_minus_one by (simp add: get_lr_def)

section \<open>Properties of the mask expansion\<close>

lemma chunks_of_concat:
  assumes "\<forall>r\<in>set rows. length r = S"
  shows "map (\<lambda>i. take S (drop (i * S) (concat rows))) [0..<length rows] = rows"
  using assms
proof (induction rows)
  case Nil
  then show ?case by simp
next
  case (Cons r rs)
  have "map (\<lambda>i. take S (drop (i * S) (concat (r # rs)))) [0..<length (r # rs)]
      = take S (concat (r # rs)) # map (\<lambda>i. take S (drop (Suc i * S) (concat (r # rs)))) [0..<length rs]"
    by (simp add: upt_conv_Cons map_Suc_upt [symmetric] del: upt_Suc)
  also have "take S (concat (r # rs)) = r"
    using Cons.prems by simp
  also have "map (\<lambda>i. take S (drop (Suc i * S) (concat (r # rs)))) [0..<length rs]
      = map (\<lambda>i. take S (drop (i * S) (concat rs))) [0..<length rs]"
    using Cons.prems by simp
  also have "\<dots> = rs"
    using Cons by simp
  finally show ?case .
qed

lemma length_concat_uniform:
  "\<forall>r\<in>set rows. length r = S \<Longrightarrow> length (concat rows) = length rows * S"
  by (induction rows) auto

lemma concat_replicate_single: "concat (replicate n [x]) = replicate n x"
  by (induction n) auto

lemma create_mask_closed:
  assumes "\<forall>row\<in>set msk. length row = S"
  shows "create_mask H msk S = Inr (concat (map (\<lambda>row. replicate H (replicate S row)) msk))"
proof -
  define rows where "rows = concat (map (\<lambda>row. replicate H row) msk)"
  have rows_len: "\<forall>r\<in>set rows. length r = S"
    using assms by (auto simp: rows_def)
  have n: "length rows = length msk * H"
    by (simp add: rows_def length_concat o_def sum_list_triv)
  have ph: "concat (map (\<lambda>m. concat (replicate H m)) (map (\<lambda>row. [row]) msk)) = rows"
    by (simp add: rows_def o_def concat_replicate_single)
  have flat_len: "length (concat rows) = length msk * H * 1 * S"
    using length_concat_uniform [OF rows_len] n by simp
  have "view3 (length msk * H) 1 S (concat rows)
      = Inr (map (\<lambda>i. [take S (drop (i * S) (concat rows))]) [0..<length msk * H])"
    using flat_len by (simp add: view3_def)
  also have "map (\<lambda>i. [take S (drop (i * S) (concat rows))]) [0..<length msk * H]
      = map (\<lambda>r. [r]) (map (\<lambda>i. take S (drop (i * S) (concat rows))) [0..<length rows])"
    by (simp add: n)
  also have "\<dots> = map (\<lambda>r. [r]) rows"
    using chunks_of_concat [OF rows_len] by simp
  finally have v: "view3 (length msk * H) 1 S (concat rows) = Inr (map (\<lambda>r. [r]) rows)" .
  have "create_mask H msk S = Inr (map (\<lambda>m. concat (replicate S m)) (map (\<lambda>r. [r]) rows))"
    unfolding create_mask_def Let_def ph v by simp
  also have "map (\<lambda>m. concat (replicate S m)) (map (\<lambda>r. [r]) rows) = map (replicate S) rows"
    by (simp add: o_def concat_replicate_single)
  also have "\<dots> = concat (map (\<lambda>row. replicate H (replicate S row)) msk)"
    by (simp add: rows_def map_concat o_def)
  finally show ?thesis .
qed

lemma nth_concat_replicate:
  "g < length xs * H \<Longrightarrow> concat (map (\<lambda>x. replicate H (f x)) xs) ! g = f (xs ! (g div H))"
proof (induction xs arbitrary: g)
  case Nil
  then show ?case by simp
next
  case (Cons x xs)
  show ?case
  proof (cases "g < H")
    case True
    then show ?thesis by (simp add: nth_append)
  next
    case False
    then have "g - H < length xs * H" using Cons.prems by simp
    moreover have "0 < H" using Cons.prems by (cases H) auto
    ultimately show ?thesis using Cons.IH [of "g - H"] False
      by (simp add: nth_append le_div_geq)
  qed
qed

text \<open>The shape and the entries of the expanded mask.\<close>

lemma create_mask_rows:
  assumes "\<forall>row\<in>set msk. length row = S"
  shows "\<exists>t. create_mask H msk S = Inr t
           \<and> length t = length msk * H
           \<and> (\<forall>g<length msk * H. length (t ! g) = S
                \<and> (\<forall>q<S. length (t ! g ! q) = S \<and> t ! g ! q = msk ! (g div H)))"
proof (intro exI conjI allI impI)
  let ?t = "concat (map (\<lambda>row. replicate H (replicate S row)) msk)"
  show "create_mask H msk S = Inr ?t" using assms by (rule create_mask_closed)
  show "length ?t = length msk * H"
    by (simp add: length_concat o_def sum_list_triv)
  fix g assume g: "g < length msk * H"
  then have eq: "?t ! g = replicate S (msk ! (g div H))"
    by (rule nth_concat_replicate)
  show "length (?t ! g) = S" by (simp add: eq)
  fix q assume q: "q < S"
  have "g div H < length msk" using g
    by (metis less_mult_imp_div_less)
  then have "length (msk ! (g div H)) = S" using assms by simp
  then show "length (?t ! g ! q) = S" using q by (simp add: eq)
  show "?t ! g ! q = msk ! (g div H)" using q by (simp add: eq)
qed

section \<open>Properties of the masked loss\<close>

lemma view_rows_concat:
  assumes "0 < V" and "\<forall>r\<in>set rows. length r = V"
  shows "view_rows V (concat rows) = Inr rows"
  using assms(1) chunks_of_concat [OF assms(2)] length_concat_uniform [OF assms(2)]
  by (simp add: view_rows_def)

lemma select_zip:
  "length xs = length ys \<Longrightarrow> select m (zip xs ys) = zip (select m xs) (select m ys)"
proof (induction xs ys arbitrary: m rule: list_induct2)
  case Nil
  then show ?case by (simp add: select_def)
next
  case (Cons x xs y ys)
  then show ?case by (cases m) (auto simp: select_def)
qed

lemma length_select_eq:
  "length xs = length ys \<Longrightarrow> length (select m xs) = length (select m ys)"
proof (induction xs ys arbitrary: m rule: list_induct2)
  case Nil
  then show ?case by (simp add: select_def)
next
  case (Cons x xs y ys)
  then show ?case by (cases m) (auto simp: select_def)
qed

lemma select_all_false: "\<forall>b\<in>set m. \<not> b \<Longrightarrow> select m xs = []"
  by (auto simp: select_def filter_empty_conv dest: set_zip_rightD)

lemma cross_entropy_valid:
  assumes "length rows = length ts" and "\<forall>t\<in>set ts. 0 \<le> t \<and> t < int V"
  shows "cross_entropy V rows ts =
           Inr (if rows = [] then NaN
                else Finite (sum_list (map (\<lambda>(row, t). nll row t) (zip rows ts)) / real (length rows)))"
proof -
  have ok: "\<not> list_ex (\<lambda>t. t \<noteq> ignore_index \<and> (t < 0 \<or> int V \<le> t)) ts"
    using assms(2) by (auto simp: list_ex_iff)
  have "\<forall>p\<in>set (zip rows ts). snd p \<noteq> ignore_index"
    using assms(2) by (auto simp: ignore_index_def dest!: set_zip_rightD)
  then have kept: "filter (\<lambda>(row, t). t \<noteq> ignore_index) (zip rows ts) = zip rows ts"
    by (auto simp: filter_id_conv)
  show ?thesis
    using assms(1) ok by (auto simp: cross_entropy_def kept Let_def)
qed

text \<open>
  Claim C3, as stated, fails: with a mask that selects nothing, \<open>masked_loss\<close> does not
  raise; the cross entropy of no rows is NaN.
\<close>

theorem masked_loss_all_zero_counterexample:
  "masked_loss 2 [[[0, 0]]] [[1]] [[0]] = Inr NaN
   \<and> \<not> (\<exists>e. masked_loss 2 [[[0, 0]]] [[1]] [[0]] = Inl e)"
  by (simp add: masked_loss_def view_rows_def select_def cross_entropy_def)

text \<open>
  Claim C3, amended. For logits of \<open>V > 0\<close> columns, with as many mask entries and
  targets as logit rows and every selected target in \<open>[0, V)\<close>: \<open>masked_loss\<close> returns
  the mean negative log-likelihood over exactly the positions whose mask entry is 1, and
  NaN (no error) when there is no such position, in particular for an all-zero mask.
\<close>

theorem masked_loss_selected:
  assumes "0 < V"
      and "\<forall>r\<in>set (concat outputs). length r = V"
      and "length (concat masks) = length (concat outputs)"
      and "length (concat targets) = length (concat outputs)"
      and "\<forall>t\<in>set (select (map (\<lambda>m. m = 1) (concat masks)) (concat targets)). 0 \<le> t \<and> t < int V"
  shows "masked_loss V outputs targets masks =
           (let selected = select (map (\<lambda>m. m = 1) (concat masks)) (zip (concat outputs) (concat targets))
            in Inr (if selected = [] then NaN
                    else Finite (sum_list (map (\<lambda>(row, t). nll row t) selected) / real (length selected))))
       \<and> ((\<forall>m\<in>set (concat masks). m = 0) \<longrightarrow> masked_loss V outputs targets masks = Inr NaN)"
proof -
  define msk where "msk = map (\<lambda>m. m = (1::real)) (concat masks)"
  have v: "view_rows V (concat (concat outputs)) = Inr (concat outputs)"
    using assms(1,2) by (rule view_rows_concat)
  have len: "length (select msk (concat outputs)) = length (select msk (concat targets))"
    using assms(4) by (intro length_select_eq) simp
  have z: "select msk (zip (concat outputs) (concat targets))
            = zip (select msk (concat outputs)) (select msk (concat targets))"
    using assms(4) by (intro select_zip) simp
  have empty_iff: "select msk (concat outputs) = [] \<longleftrightarrow>
      zip (select msk (concat outputs)) (select msk (concat targets)) = []"
    using len by (cases "select msk (concat outputs)"; cases "select msk (concat targets)") auto
  have ml: "masked_loss V outputs targets masks
      = cross_entropy V (select msk (concat outputs)) (select msk (concat targets))"
    using assms(3,4) by (simp add: masked_loss_def v msk_def Let_def)
  have main: "masked_loss V outputs targets masks =
           (let selected = select (map (\<lambda>m. m = 1) (concat masks)) (zip (concat outputs) (concat targets))
            in Inr (if selected = [] then NaN
                    else Finite (sum_list (map (\<lambda>(row, t). nll row t) selected) / real (length selected))))"
  proof -
    have "cross_entropy V (select msk (concat outputs)) (select msk (concat targets)) =
           Inr (if select msk (concat outputs) = [] then NaN
                else Finite (sum_list (map (\<lambda>(row, t). nll row t)
                       (zip (select msk (concat outputs)) (select msk (concat targets))))
                     / real (length (select msk (concat outputs)))))"
      using assms(5) unfolding msk_def [symmetric] by (intro cross_entropy_valid len) 
    moreover have "length (zip (select msk (concat outputs)) (select msk (concat targets)))
        = length (select msk (concat outputs))"
      using len by simp
    ultimately show ?thesis
      unfolding ml Let_def msk_def [symmetric] z empty_iff by (simp only:)
  qed
  have zero: "(\<forall>m\<in>set (concat masks). m = 0) \<longrightarrow> masked_loss V outputs targets masks = Inr NaN"
  proof
    assume "\<forall>m\<in>set (concat masks). m = 0"
    then have "\<forall>b\<in>set msk. \<not> b" unfolding msk_def by fastforce
    then have "select msk (zip (concat outputs) (concat targets)) = []"
      by (rule select_all_false)
    then show "masked_loss V outputs targets masks = Inr NaN"
      unfolding main Let_def msk_def [symmetric] by simp
  qed
  from main zero show ?thesis by (rule conjI)
qed

theorem masked_loss_selected_witness:
  "(0::nat) < 2
   \<and> length (concat [[1, 0::real]]) = length (concat [[[0, 0]], [[0, 0::real]]])
   \<and> length (concat [[1, 0::int]]) = length (concat [[[0, 0]], [[0, 0::real]]])
   \<and> masked_loss 2 [[[0, 0]], [[0, 0]]] [[1, 0]] [[1, 0]] = Inr (Finite (ln 2))
   \<and> masked_loss 2 [[[0, 0]], [[0, 0]]] [[1, 0]] [[0, 0]] = Inr NaN"
proof -
  have a: "masked_loss 2 [[[0, 0]], [[0, 0]]] [[1, 0]] [[1, 0]] = Inr (Finite (ln 2))"
    using masked_loss_selected [of 2 "[[[0, 0]], [[0, 0]]]" "[[1, 0]]" "[[1, 0]]"]
    by (simp add: select_def nll_def)
  have b: "masked_loss 2 [[[0, 0]], [[0, 0]]] [[1, 0]] [[0, 0]] = Inr NaN"
    using masked_loss_selected [of 2 "[[[0, 0]], [[0, 0]]]" "[[0, 0]]" "[[1, 0]]"]
    by (simp add: select_def)
  show ?thesis using a b by simp
qed


section \<open>Properties of the nucleus filter\<close>

lemma argsort_all_fin:
  assumes "\<forall>i<length ls. ls ! i \<noteq> NegInf"
  shows "argsort_descending rank ls
           = sort_key (\<lambda>i. - fin_value (ls ! i)) (sort_key rank [0..<length ls])"
proof -
  have "\<forall>i\<in>set (sort_key (\<lambda>i. - fin_value (ls ! i)) (sort_key rank [0..<length ls])). ls ! i \<noteq> NegInf"
    using assms by simp
  then show ?thesis
    by (simp add: argsort_descending_def Let_def)
qed

lemma length_argsort: "length (argsort_descending rank (map Fin xs)) = length xs"
  by (simp add: argsort_all_fin)

lemma set_argsort: "set (argsort_descending rank (map Fin xs)) = {0..<length xs}"
  by (simp add: argsort_all_fin)

lemma distinct_argsort: "distinct (argsort_descending rank (map Fin xs))"
  by (simp add: argsort_all_fin)

lemma argsort_lt:
  assumes "j < length xs"
  shows "argsort_descending rank (map Fin xs) ! j < length xs"
proof -
  have "argsort_descending rank (map Fin xs) ! j \<in> set (argsort_descending rank (map Fin xs))"
    using assms by (intro nth_mem) (simp add: length_argsort)
  then show ?thesis by (simp add: set_argsort)
qed

lemma argsort_descending_order:
  assumes "j \<le> k" and "k < length xs"
  shows "xs ! (argsort_descending rank (map Fin xs) ! k)
           \<le> xs ! (argsort_descending rank (map Fin xs) ! j)"
proof -
  let ?p = "argsort_descending rank (map Fin xs)"
  let ?key = "\<lambda>i. - fin_value (map Fin xs ! i)"
  have p: "?p = sort_key ?key (sort_key rank [0..<length (map Fin xs)])"
    by (rule argsort_all_fin) simp
  have "sorted (map ?key (sort_key ?key (sort_key rank [0..<length (map Fin xs)])))"
    by (rule sorted_sort_key)
  then have "sorted (map ?key ?p)"
    by (simp only: p [symmetric])
  then have "map ?key ?p ! j \<le> map ?key ?p ! k"
    using assms by (intro sorted_nth_mono) (simp_all add: length_argsort)
  moreover have "?p ! j < length xs" "?p ! k < length xs"
    using assms by (simp_all add: argsort_lt)
  ultimately show ?thesis using assms by (simp add: length_argsort fin_value_def)
qed

lemma sum_list_divide_const: "sum_list (map (\<lambda>x. f x / c) xs) = sum_list (map f xs) / (c::real)"
  by (induction xs) (simp_all add: add_divide_distrib)

lemma exp_logit_nonneg: "0 \<le> exp_logit l"
  by (cases l) (simp_all add: exp_logit_def)

lemma exp_logit_Fin: "map exp_logit (map Fin xs) = map exp xs"
  by (simp add: exp_logit_def)

lemma sum_exp_pos: "xs \<noteq> [] \<Longrightarrow> 0 < sum_list (map exp xs)" for xs :: "real list"
proof (induction xs)
  case Nil
  then show ?case by simp
next
  case (Cons x xs)
  have "0 \<le> sum_list (map exp xs)"
    by (intro sum_list_nonneg) auto
  moreover have "0 < exp x" by simp
  ultimately show ?case by (simp add: add_pos_nonneg)
qed

lemma softmax_Fin:
  assumes "xs \<noteq> []"
  shows "softmax (map Fin xs) = Some (map (\<lambda>x. exp x / sum_list (map exp xs)) xs)"
  using assms sum_exp_pos [OF assms]
  unfolding softmax_def exp_logit_Fin by (simp add: o_def exp_logit_def)

lemma sum_list_permutation:
  fixes f :: "'a \<Rightarrow> real"
  assumes "distinct perm" and "set perm = {0..<length xs}"
  shows "sum_list (map (\<lambda>i. f (xs ! i)) perm) = sum_list (map f xs)"
proof -
  have "sum_list (map (\<lambda>i. f (xs ! i)) perm) = sum (\<lambda>i. f (xs ! i)) (set perm)"
    using assms(1) by (rule sum_list_distinct_conv_sum_set)
  also have "\<dots> = sum (\<lambda>i. f (xs ! i)) (set [0..<length xs])"
    using assms(2) by simp
  also have "\<dots> = sum_list (map (\<lambda>i. f (xs ! i)) [0..<length xs])"
    by (rule sum_list_distinct_conv_sum_set [symmetric]) simp
  also have "map (\<lambda>i. f (xs ! i)) [0..<length xs] = map f xs"
    by (rule nth_equalityI) simp_all
  finally show ?thesis .
qed

lemma length_cumsum_from: "length (cumsum_from a xs) = length xs"
  by (induction xs arbitrary: a) auto

lemma cumsum_from_nth:
  "k < length xs \<Longrightarrow> cumsum_from a xs ! k = a + sum_list (take (Suc k) xs)"
proof (induction xs arbitrary: a k)
  case Nil
  then show ?case by simp
next
  case (Cons x xs)
  then show ?case by (cases k) (auto simp: algebra_simps)
qed

lemma cumsum_nth: "k < length xs \<Longrightarrow> cumsum xs ! k = sum_list (take (Suc k) xs)"
  by (simp add: cumsum_def cumsum_from_nth)

lemma sum_list_take_le:
  assumes "\<forall>x\<in>set xs. (0::real) \<le> x"
  shows "sum_list (take k xs) \<le> sum_list xs"
proof -
  have "sum_list xs = sum_list (take k xs) + sum_list (drop k xs)"
    by (metis append_take_drop_id sum_list_append)
  moreover have "0 \<le> sum_list (drop k xs)"
    using assms by (intro sum_list_nonneg) (auto dest: in_set_dropD)
  ultimately show ?thesis by simp
qed

lemma head_le_sum_list_take:
  assumes "\<forall>x\<in>set xs. (0::real) \<le> x" and "k < length xs"
  shows "xs ! 0 \<le> sum_list (take (Suc k) xs)"
proof (cases xs)
  case Nil
  then show ?thesis using assms by simp
next
  case (Cons x ys)
  have "0 \<le> sum_list (take k ys)"
    using assms(1) Cons by (intro sum_list_nonneg) (auto dest: in_set_takeD)
  then show ?thesis using Cons by simp
qed

lemma shifted_nth:
  assumes "j < length bs"
  shows "(take 1 bs @ butlast bs) ! j = (if j = 0 then bs ! 0 else bs ! (j - 1))"
proof (cases bs)
  case Nil
  then show ?thesis using assms by simp
next
  case (Cons a as)
  then show ?thesis using assms by (cases j) (auto simp: nth_butlast nth_Cons')
qed

lemma length_shifted: "length (take 1 bs @ butlast bs) = length bs"
  by (cases bs) auto

lemma fold_update_length: "length (fold (\<lambda>i acc. acc[i := v]) is xs) = length xs"
  by (induction "is" arbitrary: xs) auto

lemma fold_update_nth:
  "i < length xs \<Longrightarrow>
   fold (\<lambda>i acc. acc[i := v]) is xs ! i = (if i \<in> set is then v else xs ! i)"
proof (induction "is" arbitrary: xs)
  case Nil
  then show ?case by simp
next
  case (Cons a as)
  then show ?case by (auto simp: fold_update_length nth_list_update)
qed

lemma set_select:
  "length m = length xs \<Longrightarrow> set (select m xs) = {xs ! j | j. j < length xs \<and> m ! j}"
  by (auto simp: select_def set_zip image_iff) (metis fst_conv snd_conv)+

lemma select_distinct_mem:
  assumes "length m = length xs" and "distinct xs" and "j < length xs"
  shows "xs ! j \<in> set (select m xs) \<longleftrightarrow> m ! j"
  using assms by (auto simp: set_select nth_eq_iff_index_eq)

lemma top_p_filtering_fin:
  assumes "xs \<noteq> []"
  shows "let perm = argsort_descending rank (map Fin xs);
             cum = (\<lambda>j. sum_list (map (\<lambda>i. exp (xs ! i)) (take j perm)) / sum_list (map exp xs))
         in \<exists>out. top_p_filtering rank (map Fin xs) top_p fv = Inr out
              \<and> length out = length xs
              \<and> (\<forall>j<length xs. out ! (perm ! j) =
                    (if 0 < j \<and> top_p < cum j then fv else Fin (xs ! (perm ! j))))
              \<and> (1 \<le> top_p \<longrightarrow> out = map Fin xs)
              \<and> (\<forall>j<length xs. cum 1 \<le> cum (Suc j))"
proof -
  define n where "n = length xs"
  define perm where "perm = argsort_descending rank (map Fin xs)"
  define sl where "sl = map (\<lambda>i. xs ! i) perm"
  define Z where "Z = sum_list (map exp xs)"
  define probs where "probs = map (\<lambda>x. exp x / Z) sl"
  define cum where "cum = cumsum probs"
  define cumf where "cumf = (\<lambda>j. sum_list (map (\<lambda>i. exp (xs ! i)) (take j perm)) / Z)"
  define shifted where "shifted = take 1 (map (\<lambda>c. top_p < c) cum) @ butlast (map (\<lambda>c. top_p < c) cum)"
  define remove where "remove = shifted[0 := False]"
  define out where "out = fold (\<lambda>i acc. acc[i := fv]) (select remove perm) (map Fin xs)"
  have n_pos: "0 < n" using assms by (simp add: n_def)
  have len_perm: "length perm = n" by (simp add: perm_def n_def length_argsort)
  have set_perm: "set perm = {0..<length xs}" by (simp add: perm_def set_argsort)
  have dist_perm: "distinct perm" by (simp add: perm_def distinct_argsort)
  have len_sl: "length sl = n" by (simp add: sl_def len_perm)
  have sl_ne: "sl \<noteq> []" using n_pos len_sl by auto
  have Z_pos: "0 < Z" unfolding Z_def using assms by (rule sum_exp_pos)
  have Z_sl: "sum_list (map exp sl) = Z"
    unfolding sl_def Z_def map_map o_def using dist_perm set_perm by (rule sum_list_permutation)
  have fin_sl: "map (\<lambda>i. map Fin xs ! i) perm = map Fin sl"
    using set_perm by (auto simp: sl_def)
  have sm: "softmax (map Fin sl) = Some probs"
    using softmax_Fin [OF sl_ne] by (simp add: probs_def Z_sl)
  have len_probs: "length probs = n" by (simp add: probs_def len_sl)
  have len_cum: "length cum = n" by (simp add: cum_def cumsum_def length_cumsum_from len_probs)
  have len_shifted: "length shifted = n" by (simp add: shifted_def length_shifted len_cum)
  have len_remove: "length remove = n" by (simp add: remove_def len_shifted)
  have len_out: "length out = n" by (simp add: out_def fold_update_length n_def)
  have probs_nonneg: "\<forall>x\<in>set probs. 0 \<le> x"
    using Z_pos by (auto simp: probs_def)
  have probs_sum: "sum_list probs = 1"
    using Z_pos by (simp add: probs_def sum_list_divide_const Z_sl)
  have take_probs: "sum_list (take j probs) = cumf j" for j
    by (simp add: probs_def cumf_def sl_def take_map sum_list_divide_const o_def)
  have cum_nth: "cum ! k = cumf (Suc k)" if "k < n" for k
    using that by (simp add: cum_def cumsum_nth len_probs take_probs)
  have cum_le_1: "cumf j \<le> 1" for j
    using sum_list_take_le [OF probs_nonneg, of j] probs_sum by (simp add: take_probs)
  have cum_ge: "cumf 1 \<le> cumf (Suc k)" if "k < n" for k
  proof -
    have "probs ! 0 \<le> sum_list (take (Suc k) probs)"
      using probs_nonneg that by (intro head_le_sum_list_take) (simp_all add: len_probs)
    moreover have "sum_list (take 1 probs) = probs ! 0"
      using n_pos len_probs by (cases probs) auto
    ultimately show ?thesis by (simp add: take_probs [symmetric])
  qed
  have remove_nth: "remove ! j = (0 < j \<and> top_p < cumf j)" if "j < n" for j
  proof (cases "j = 0")
    case True
    then show ?thesis using n_pos by (simp add: remove_def len_shifted)
  next
    case False
    then have "remove ! j = shifted ! j" by (simp add: remove_def)
    also have "\<dots> = map (\<lambda>c. top_p < c) cum ! (j - 1)"
      unfolding shifted_def using that False by (subst shifted_nth) (simp_all add: len_cum)
    also have "\<dots> = (top_p < cum ! (j - 1))"
      using that by (simp add: len_cum)
    also have "cum ! (j - 1) = cumf j"
      using that False cum_nth [of "j - 1"] by simp
    finally show ?thesis using False by simp
  qed
  have perm_lt: "perm ! j < n" if "j < n" for j
    using that unfolding perm_def n_def by (rule argsort_lt)
  have out_nth: "out ! (perm ! j) =
      (if 0 < j \<and> top_p < cumf j then fv else Fin (xs ! (perm ! j)))" if "j < n" for j
  proof -
    have "out ! (perm ! j) = (if perm ! j \<in> set (select remove perm) then fv
                               else map Fin xs ! (perm ! j))"
      unfolding out_def using perm_lt [OF that] by (intro fold_update_nth) (simp add: n_def)
    moreover have "perm ! j \<in> set (select remove perm) \<longleftrightarrow> remove ! j"
      using that by (intro select_distinct_mem) (simp_all add: len_remove len_perm dist_perm)
    moreover have "map Fin xs ! (perm ! j) = Fin (xs ! (perm ! j))"
      using perm_lt [OF that] by (simp add: n_def)
    ultimately show ?thesis
      using remove_nth [OF that] by (simp only:)
  qed
  have shifted_ne: "shifted \<noteq> []" using len_shifted n_pos by auto
  have run: "top_p_filtering rank (map Fin xs) top_p fv = Inr out"
    unfolding top_p_filtering_def Let_def perm_def [symmetric] fin_sl sm option.case
      cum_def [symmetric] shifted_def [symmetric]
    using shifted_ne by (simp add: out_def remove_def)
  have keep_all: "out = map Fin xs" if "1 \<le> top_p"
  proof -
    have "\<not> remove ! j" if "j < n" for j
      using remove_nth [OF that] cum_le_1 [of j] \<open>1 \<le> top_p\<close> by simp
    then have "\<forall>b\<in>set remove. \<not> b"
      by (auto simp: in_set_conv_nth len_remove)
    then have "select remove perm = []" by (rule select_all_false)
    then show ?thesis by (simp add: out_def)
  qed
  show ?thesis
    unfolding Let_def perm_def [symmetric] Z_def [symmetric]
  proof (intro exI conjI allI impI)
    show "top_p_filtering rank (map Fin xs) top_p fv = Inr out" by (rule run)
    show "length out = length xs" by (simp add: len_out n_def)
    show "out = map Fin xs" if "1 \<le> top_p" using that by (rule keep_all)
    show "out ! (perm ! j) =
         (if 0 < j \<and> top_p < sum_list (map (\<lambda>i. exp (xs ! i)) (take j perm)) / Z then fv
          else Fin (xs ! (perm ! j)))" if "j < length xs" for j
      using out_nth [of j] that by (simp add: n_def cumf_def)
    show "sum_list (map (\<lambda>i. exp (xs ! i)) (take 1 perm)) / Z
            \<le> sum_list (map (\<lambda>i. exp (xs ! i)) (take (Suc j) perm)) / Z" if "j < length xs" for j
      using cum_ge [of j] that by (simp add: n_def cumf_def)
  qed
qed

lemma argsort_covers_every_order:
  assumes d: "distinct perm" and s: "set perm = {0..<length xs}"
      and desc: "\<forall>j k. j \<le> k \<and> k < length xs \<longrightarrow> xs ! (perm ! k) \<le> xs ! (perm ! j)"
  shows "\<exists>rank. argsort_descending rank (map Fin xs) = perm"
proof -
  define n where "n = length xs"
  define rank where "rank = (\<lambda>i. length (takeWhile (\<lambda>a. a \<noteq> i) perm))"
  have len: "length perm = n"
    using d s by (metis n_def distinct_card card_atLeastLessThan diff_zero)
  have rank_nth: "rank (perm ! j) = j" if "j < n" for j
  proof -
    have "takeWhile (\<lambda>a. a \<noteq> perm ! j) perm = take j perm"
      using that d len by (intro takeWhile_eq_take_P_nth) (auto simp: nth_eq_iff_index_eq)
    then show ?thesis using that len by (simp add: rank_def)
  qed
  have map_rank: "map rank perm = [0..<n]"
    using rank_nth len by (intro nth_equalityI) simp_all
  have inj: "inj_on rank {0..<n}"
  proof (rule inj_onI)
    fix a b assume "a \<in> {0..<n}" "b \<in> {0..<n}" "rank a = rank b"
    then obtain j k where "j < n" "perm ! j = a" "k < n" "perm ! k = b"
      using s len unfolding n_def [symmetric] by (metis in_set_conv_nth)
    with \<open>rank a = rank b\<close> rank_nth show "a = b" by metis
  qed
  let ?r = "sort_key rank [0..<n]"
  have "map rank ?r = map rank perm"
  proof (rule sorted_distinct_set_unique)
    show "sorted (map rank ?r)" by (rule sorted_sort_key)
    show "distinct (map rank ?r)" using inj by (simp add: distinct_map)
    show "sorted (map rank perm)" by (simp add: map_rank)
    show "distinct (map rank perm)" by (simp add: map_rank)
    show "set (map rank ?r) = set (map rank perm)" using s by (simp add: n_def)
  qed
  moreover have "inj_on rank (set ?r \<union> set perm)"
    using inj s by (simp add: n_def)
  ultimately have by_rank: "?r = perm"
    by (simp only: inj_on_map_eq_map)
  have "sorted (map (\<lambda>i. - fin_value (map Fin xs ! i)) perm)"
    unfolding sorted_iff_nth_mono
  proof (intro allI impI)
    fix j k assume jk: "j \<le> k" "k < length (map (\<lambda>i. - fin_value (map Fin xs ! i)) perm)"
    then have k: "k < length xs" using len by (simp add: n_def)
    then have "perm ! j < length xs" "perm ! k < length xs"
      using jk s len by (metis atLeastLessThan_iff n_def nth_mem le_less_trans)+
    then show "map (\<lambda>i. - fin_value (map Fin xs ! i)) perm ! j
                 \<le> map (\<lambda>i. - fin_value (map Fin xs ! i)) perm ! k"
      using desc jk k len by (simp add: n_def fin_value_def)
  qed
  then have "sort_key (\<lambda>i. - fin_value (map Fin xs ! i)) perm = perm"
    by (rule sort_key_id_if_sorted)
  then have "argsort_descending rank (map Fin xs) = perm"
    using by_rank by (simp add: argsort_all_fin n_def)
  then show ?thesis by blast
qed

text \<open>
  Claim C5. Let \<open>logits\<close> be a non-empty vector and \<open>perm\<close> the order returned by the
  descending sort, whatever order it gives to equal logits: \<open>perm\<close> is a permutation of
  the token indices along which the logits do not increase. The cumulative softmax
  probability of the first \<open>j\<close> sorted tokens is the sum of \<open>exp\<close> of their logits over the
  sum of \<open>exp\<close> of all logits. \<open>top_p_filtering\<close> returns the logits with minus infinity
  written at exactly the tokens \<open>perm ! j\<close>, \<open>j > 0\<close>, for which the cumulative probability
  of the \<open>j\<close> tokens before them exceeds \<open>top_p\<close> (the comparison shifted right by one);
  the token \<open>perm ! 0\<close>, which has the largest logit, is always kept. For \<open>top_p \<ge> 1\<close>
  nothing is filtered. The top token's probability is positive, and for every \<open>top_p\<close>
  below it (so for all \<open>top_p\<close> close enough to 0) every other token is filtered.
\<close>

theorem top_p_filtering_nucleus:
  assumes "logits \<noteq> []"
  shows "\<exists>perm out.
      perm = argsort_descending rank (map Fin logits)
    \<and> length perm = length logits \<and> distinct perm \<and> set perm = {0..<length logits}
    \<and> (\<forall>j k. j \<le> k \<and> k < length logits \<longrightarrow> logits ! (perm ! k) \<le> logits ! (perm ! j))
    \<and> top_p_filtering rank (map Fin logits) top_p NegInf = Inr out
    \<and> length out = length logits
    \<and> (\<forall>j<length logits. out ! (perm ! j) =
          (if 0 < j \<and> top_p < sum_list (map (\<lambda>i. exp (logits ! i)) (take j perm))
                                 / sum_list (map exp logits)
           then NegInf else Fin (logits ! (perm ! j))))
    \<and> out ! (perm ! 0) = Fin (logits ! (perm ! 0))
    \<and> (1 \<le> top_p \<longrightarrow> out = map Fin logits)
    \<and> 0 < exp (logits ! (perm ! 0)) / sum_list (map exp logits)
    \<and> (top_p < exp (logits ! (perm ! 0)) / sum_list (map exp logits) \<longrightarrow>
          (\<forall>j<length logits. 0 < j \<longrightarrow> out ! (perm ! j) = NegInf))"
proof -
  define perm where "perm = argsort_descending rank (map Fin logits)"
  define Z where "Z = sum_list (map exp logits)"
  define cum where "cum = (\<lambda>j. sum_list (map (\<lambda>i. exp (logits ! i)) (take j perm)) / Z)"
  have n_pos: "0 < length logits" using assms by simp
  have Z_pos: "0 < Z" unfolding Z_def using assms by (rule sum_exp_pos)
  have len_perm: "length perm = length logits" by (simp add: perm_def length_argsort)
  from top_p_filtering_fin [OF assms, of rank top_p NegInf]
  obtain out where run: "top_p_filtering rank (map Fin logits) top_p NegInf = Inr out"
    and len_out: "length out = length logits"
    and out_nth: "\<forall>j<length logits. out ! (perm ! j) =
                    (if 0 < j \<and> top_p < cum j then NegInf else Fin (logits ! (perm ! j)))"
    and keep_all: "1 \<le> top_p \<longrightarrow> out = map Fin logits"
    and cum_ge: "\<forall>j<length logits. cum 1 \<le> cum (Suc j)"
    unfolding Let_def perm_def [symmetric] Z_def [symmetric] cum_def by blast
  have cum_1: "cum 1 = exp (logits ! (perm ! 0)) / Z"
    using n_pos len_perm by (cases perm) (simp_all add: cum_def)
  have first: "out ! (perm ! 0) = Fin (logits ! (perm ! 0))"
    using out_nth n_pos by simp
  have only_top: "out ! (perm ! j) = NegInf"
    if "top_p < exp (logits ! (perm ! 0)) / Z" "j < length logits" "0 < j" for j
  proof -
    have "j - 1 < length logits" using that by simp
    then have "cum 1 \<le> cum (Suc (j - 1))" using cum_ge by blast
    then have "top_p < cum j" using that cum_1 by simp
    then show ?thesis using out_nth that by simp
  qed
  have order: "logits ! (perm ! k) \<le> logits ! (perm ! j)" if "j \<le> k" "k < length logits" for j k
    using that unfolding perm_def by (rule argsort_descending_order)
  have top_pos: "0 < exp (logits ! (perm ! 0)) / Z" using Z_pos by simp
  show ?thesis
  proof (intro exI conjI)
    show "perm = argsort_descending rank (map Fin logits)" by (rule perm_def)
    show "length perm = length logits" by (rule len_perm)
    show "distinct perm" by (simp add: perm_def distinct_argsort)
    show "set perm = {0..<length logits}" by (simp add: perm_def set_argsort)
    show "\<forall>j k. j \<le> k \<and> k < length logits \<longrightarrow> logits ! (perm ! k) \<le> logits ! (perm ! j)"
      using order by blast
    show "top_p_filtering rank (map Fin logits) top_p NegInf = Inr out" by (rule run)
    show "length out = length logits" by (rule len_out)
    show "\<forall>j<length logits. out ! (perm ! j) =
          (if 0 < j \<and> top_p < sum_list (map (\<lambda>i. exp (logits ! i)) (take j perm))
                                 / sum_list (map exp logits)
           then NegInf else Fin (logits ! (perm ! j)))"
      using out_nth by (simp add: cum_def Z_def)
    show "out ! (perm ! 0) = Fin (logits ! (perm ! 0))" by (rule first)
    show "1 \<le> top_p \<longrightarrow> out = map Fin logits" by (rule keep_all)
    show "0 < exp (logits ! (perm ! 0)) / sum_list (map exp logits)"
      using top_pos by (simp add: Z_def)
    show "top_p < exp (logits ! (perm ! 0)) / sum_list (map exp logits) \<longrightarrow>
          (\<forall>j<length logits. 0 < j \<longrightarrow> out ! (perm ! j) = NegInf)"
      using only_top by (simp add: Z_def)
  qed
qed

lemma argsort_example:
  "argsort_descending (\<lambda>i. i) (map Fin [0, ln 2, ln 5]) = [2, 1, 0]"
  by (simp add: argsort_descending_def fin_value_def Let_def
        upt_rec [of _ "numeral _"] upt_rec [of _ "Suc _"] numeral_3_eq_3)

lemma argsort_tie_example:
  "argsort_descending (\<lambda>i. 1 - i) (map Fin [0, 0]) = [1, 0]"
  by (simp add: argsort_descending_def fin_value_def Let_def
        upt_rec [of _ "numeral _"] upt_rec [of _ "Suc _"] numeral_2_eq_2)

lemma list_of_three: "length xs = 3 \<Longrightarrow> xs = [xs ! 0, xs ! 1, xs ! 2]"
  by (cases xs; cases "tl xs"; cases "tl (tl xs)") auto

lemma list_of_two: "length xs = 2 \<Longrightarrow> xs = [xs ! 0, xs ! 1]"
  by (cases xs; cases "tl xs") auto

text \<open>
  Logits \<open>0, ln 2, ln 5\<close> have probabilities \<open>1/8, 2/8, 5/8\<close>: with \<open>top_p = 3/4\<close> the
  tokens 2 and 1 are kept (the mass before token 1 is \<open>5/8\<close>) and token 0 is filtered
  (the mass before it is \<open>7/8\<close>). On two equal logits a sort that puts token 1 first
  filters token 0.
\<close>

theorem top_p_filtering_nucleus_witness:
  "[0, ln 2, ln 5 :: real] \<noteq> []
   \<and> top_p_filtering (\<lambda>i. i) (map Fin [0, ln 2, ln 5]) (3 / 4) NegInf
       = Inr [NegInf, Fin (ln 2), Fin (ln 5)]
   \<and> top_p_filtering (\<lambda>i. 1 - i) (map Fin [0, 0]) (1 / 4) NegInf = Inr [NegInf, Fin 0]"
proof -
  let ?xs = "[0, ln 2, ln 5 :: real]"
  have ne: "?xs \<noteq> []" by simp
  from top_p_filtering_nucleus [OF ne, of "\<lambda>i. i" "3 / 4"]
  obtain out where run: "top_p_filtering (\<lambda>i. i) (map Fin ?xs) (3 / 4) NegInf = Inr out"
    and len: "length out = length ?xs"
    and rows: "\<forall>j<length ?xs. out ! ([2, 1, 0] ! j) =
          (if 0 < j \<and> 3 / 4 < sum_list (map (\<lambda>i. exp (?xs ! i)) (take j [2, 1, 0]))
                                 / sum_list (map exp ?xs)
           then NegInf else Fin (?xs ! ([2, 1, 0] ! j)))"
    unfolding argsort_example by blast
  from rows have "out ! ([2, 1, 0] ! 0) =
          (if 0 < (0::nat) \<and> 3 / 4 < sum_list (map (\<lambda>i. exp (?xs ! i)) (take 0 [2, 1, 0]))
                                 / sum_list (map exp ?xs)
           then NegInf else Fin (?xs ! ([2, 1, 0] ! 0)))"
    by (rule allE [where x = 0]) simp
  then have o2: "out ! 2 = Fin (ln 5)" by simp
  from rows have "out ! ([2, 1, 0] ! 1) =
          (if 0 < (1::nat) \<and> 3 / 4 < sum_list (map (\<lambda>i. exp (?xs ! i)) (take 1 [2, 1, 0]))
                                 / sum_list (map exp ?xs)
           then NegInf else Fin (?xs ! ([2, 1, 0] ! 1)))"
    by (rule allE [where x = 1]) simp
  then have o1: "out ! 1 = Fin (ln 2)" by simp
  from rows have "out ! ([2, 1, 0] ! 2) =
          (if 0 < (2::nat) \<and> 3 / 4 < sum_list (map (\<lambda>i. exp (?xs ! i)) (take 2 [2, 1, 0]))
                                 / sum_list (map exp ?xs)
           then NegInf else Fin (?xs ! ([2, 1, 0] ! 2)))"
    by (rule allE [where x = 2]) simp
  then have o0: "out ! 0 = NegInf" by (simp add: numeral_2_eq_2)
  have "out = [out ! 0, out ! 1, out ! 2]" using len by (intro list_of_three) simp
  with o0 o1 o2 have a: "out = [NegInf, Fin (ln 2), Fin (ln 5)]" by simp
  let ?ys = "[0, 0 :: real]"
  have ne': "?ys \<noteq> []" by simp
  from top_p_filtering_nucleus [OF ne', of "\<lambda>i. 1 - i" "1 / 4"]
  obtain out' where run': "top_p_filtering (\<lambda>i. 1 - i) (map Fin ?ys) (1 / 4) NegInf = Inr out'"
    and len': "length out' = length ?ys"
    and rows': "\<forall>j<length ?ys. out' ! ([1, 0] ! j) =
          (if 0 < j \<and> 1 / 4 < sum_list (map (\<lambda>i. exp (?ys ! i)) (take j [1, 0]))
                                 / sum_list (map exp ?ys)
           then NegInf else Fin (?ys ! ([1, 0] ! j)))"
    unfolding argsort_tie_example by blast
  from rows' have "out' ! ([1, 0] ! 0) =
          (if 0 < (0::nat) \<and> 1 / 4 < sum_list (map (\<lambda>i. exp (?ys ! i)) (take 0 [1, 0]))
                                 / sum_list (map exp ?ys)
           then NegInf else Fin (?ys ! ([1, 0] ! 0)))"
    by (rule allE [where x = 0]) simp
  then have p1: "out' ! 1 = Fin 0" by simp
  from rows' have "out' ! ([1, 0] ! 1) =
          (if 0 < (1::nat) \<and> 1 / 4 < sum_list (map (\<lambda>i. exp (?ys ! i)) (take 1 [1, 0]))
                                 / sum_list (map exp ?ys)
           then NegInf else Fin (?ys ! ([1, 0] ! 1)))"
    by (rule allE [where x = 1]) simp
  then have p0: "out' ! 0 = NegInf" by simp
  have "out' = [out' ! 0, out' ! 1]" using len' by (intro list_of_two) simp
  with p0 p1 have b: "out' = [NegInf, Fin 0]" by simp
  from run a run' b show ?thesis by simp
qed


section \<open>Properties of the forward pass and of generation\<close>

lemma ln_38_bounds: "0 < ln (38::real)" "ln (38::real) \<le> 37"
  using ln_le_minus_one [of "38::real"] by simp_all

lemma float_max_large: "37 \<le> float_max"
  by (simp add: float_max_def)

lemma toy_filter_plain:
  "top_p_filtering (\<lambda>k. k) [Fin 0, Fin 0, Fin (ln 38)] (9 / 10) NegInf
     = Inr [NegInf, NegInf, Fin (ln 38)]"
  by (simp add: top_p_filtering_def argsort_descending_def fin_value_def softmax_def exp_logit_def
        cumsum_def select_def Let_def
        upt_rec [of _ "numeral _"] upt_rec [of _ "Suc _"] numeral_3_eq_3)

lemma toy_filter_negated:
  "top_p_filtering (\<lambda>k. k) [Fin 0, Fin 0, Fin (- ln 38)] (9 / 10) NegInf
     = Inr [Fin 0, Fin 0, NegInf]"
  by (simp add: top_p_filtering_def argsort_descending_def fin_value_def softmax_def exp_logit_def
        cumsum_def select_def Let_def exp_minus
        upt_rec [of _ "numeral _"] upt_rec [of _ "Suc _"] numeral_3_eq_3)

lemma toy_softmax_plain: "softmax [NegInf, NegInf, Fin (ln 38)] = Some [0, 0, 1]"
  by (simp add: softmax_def exp_logit_def)

lemma toy_softmax_negated: "softmax [Fin 0, Fin 0, NegInf] = Some [1 / 2, 1 / 2, 0]"
  by (simp add: softmax_def exp_logit_def)

lemma toy_sample_plain: "sample_token u [0, 0, 1] = Inr 2"
  by (simp add: sample_token_def upt_rec [of _ "numeral _"] upt_rec [of _ "Suc _"] numeral_3_eq_3)

lemma toy_sample_negated: "sample_token 0 [1 / 2, 1 / 2, 0] = Inr 0"
  by (simp add: sample_token_def upt_rec [of _ "numeral _"] upt_rec [of _ "Suc _"] numeral_3_eq_3)

lemma divide_float_finite:
  assumes "temperature \<noteq> 0" and "\<bar>l / temperature\<bar> \<le> float_max"
  shows "divide_float l temperature = Quot (l / temperature)"
proof -
  from assms(2) have "- float_max \<le> l / temperature" "l / temperature \<le> float_max"
    by (simp_all only: abs_le_iff) linarith+
  then show ?thesis using assms(1) by (simp add: divide_float_def)
qed

lemma float_max_pos: "0 \<le> float_max"
  by (simp add: float_max_def)

lemma ln_38_float: "\<bar>ln (38::real)\<bar> \<le> float_max"
  using ln_38_bounds float_max_large by linarith

lemma toy_divide_plain:
  "map (\<lambda>l. divide_float l 1) [0, 0, ln 38] = [Quot 0, Quot 0, Quot (ln 38)]"
  using divide_float_finite [of 1 0] divide_float_finite [of 1 "ln 38"] float_max_pos ln_38_float
  by simp

lemma toy_divide_negated:
  "map (\<lambda>l. divide_float l (- 1)) [0, 0, ln 38] = [Quot 0, Quot 0, Quot (- ln 38)]"
  using divide_float_finite [of "- 1" 0] divide_float_finite [of "- 1" "ln 38"] float_max_pos
    ln_38_float
  by simp

lemma toy_divide_zero:
  "map (\<lambda>l. divide_float l 0) [0, 0, ln 38] = [NotANumber, NotANumber, PlusInf]"
  using ln_38_bounds(1) by (simp add: divide_float_def)

lemma snd_bind_run_Inl: "snd r = Inl e \<Longrightarrow> bind_run r f = (fst r, Inl e)"
  by (simp add: bind_run_def)

lemma bind_run_Inr: "snd r = Inr a \<Longrightarrow> bind_run r f = (fst r @ fst (f a), snd (f a))"
  by (simp add: bind_run_def)

lemma bind_run_lift_Inr [simp]: "bind_run (lift (Inr a)) f = f a"
  by (simp add: bind_run_def lift_def)

lemma bind_run_lift_Inl [simp]: "bind_run (lift (Inl e)) f = ([], Inl e)"
  by (simp add: bind_run_def lift_def)

lemma bind_run_pair_Inr [simp]: "bind_run (evs, Inr a) f = (evs @ fst (f a), snd (f a))"
  by (simp add: bind_run_def)

lemma bind_run_pair_Inl [simp]: "bind_run (evs, Inl e) f = (evs, Inl e)"
  by (simp add: bind_run_def)

lemma toy_forward_1:
  "forward toy_model toy_store [[0]] None
     = ([MaskIsNone, AttentionCall 0 None], Inr [[[0, 0, ln 38]]])"
  by (simp add: forward_def toy_model_def toy_store_def toy_block_def embedding_lookup_def
        add_positional_def compat_def bdim_def pick_def size1_def linear_def block_forward_def
        add3_def Let_def lift_def)

lemma toy_forward_2:
  "forward toy_model toy_store [[0, 0]] None
     = ([MaskIsNone, AttentionCall 0 None], Inr [[[0, 0, ln 38]], [[0, 0, ln 38]]])"
  by (simp add: forward_def toy_model_def toy_store_def toy_block_def embedding_lookup_def
        add_positional_def compat_def bdim_def pick_def size1_def linear_def block_forward_def
        add3_def Let_def lift_def upt_rec [of _ "numeral _"] upt_rec [of _ "Suc _"])

lemma fst_bind_run_subset: "set (fst (bind_run r f)) \<subseteq> set (fst r) \<union> (\<Union>a. set (fst (f a)))"
  by (auto simp: bind_run_def split: sum.splits)

lemma run_layers_events:
  "ev \<in> set (fst (run_layers bs idx st x msk)) \<Longrightarrow> \<exists>k. ev = AttentionCall k msk"
proof (induction bs arbitrary: idx x)
  case Nil
  then show ?case by simp
next
  case (Cons b bs)
  from Cons.prems fst_bind_run_subset
  have "ev \<in> set (fst (block_forward b idx st x msk))
        \<or> (\<exists>x'. ev \<in> set (fst (run_layers bs (Suc idx) st x' msk)))"
    by fastforce
  then show ?case
  proof
    assume "ev \<in> set (fst (block_forward b idx st x msk))"
    then show ?thesis by (simp add: block_forward_def)
  next
    assume "\<exists>x'. ev \<in> set (fst (run_layers bs (Suc idx) st x' msk))"
    then show ?thesis using Cons.IH by blast
  qed
qed

lemma forward_events_none:
  assumes "ev \<in> set (fst (forward m st x None))"
  shows "ev = MaskIsNone \<or> (\<exists>k. ev = AttentionCall k None)"
proof (cases "embedding_lookup st (embedding_weight m) x")
  case (Inl e)
  then show ?thesis using assms by (simp add: forward_def)
next
  case (Inr x1)
  show ?thesis
  proof (cases "add_positional st (pos_embbedings m) (size1 x1) x1")
    case (Inl e)
    then show ?thesis using assms Inr by (simp add: forward_def Let_def)
  next
    case x2: (Inr x2)
    have "fst (forward m st x None)
        = MaskIsNone # fst (bind_run (run_layers (layers m) 0 st (transpose x2) None)
             (\<lambda>x4. lift (linear st (output_layer_weight m) (output_layer_bias m) x4)))"
      using Inr x2 by (simp add: forward_def Let_def)
    with assms have "ev = MaskIsNone \<or> ev \<in> set (fst (bind_run (run_layers (layers m) 0 st (transpose x2) None)
             (\<lambda>x4. lift (linear st (output_layer_weight m) (output_layer_bias m) x4))))"
      by auto
    then show ?thesis
    proof
      assume "ev = MaskIsNone" then show ?thesis by simp
    next
      assume "ev \<in> set (fst (bind_run (run_layers (layers m) 0 st (transpose x2) None)
             (\<lambda>x4. lift (linear st (output_layer_weight m) (output_layer_bias m) x4))))"
      with fst_bind_run_subset
      have "ev \<in> set (fst (run_layers (layers m) 0 st (transpose x2) None))"
        by (fastforce simp: lift_def)
      then show ?thesis using run_layers_events by blast
    qed
  qed
qed

lemma size1_embedding: "embedding_lookup st w x = Inr x1 \<Longrightarrow> size1 x1 = size1 x"
  by (auto simp: embedding_lookup_def size1_def split: option.splits tensor.splits if_splits list.splits)

lemma forward_events_some:
  assumes "ev \<in> set (fst (forward m st x (Some mk)))"
      and "create_mask (heads m) mk (size1 x) = Inr t"
  shows "\<exists>k. ev = AttentionCall k (Some t)"
proof (cases "embedding_lookup st (embedding_weight m) x")
  case (Inl e)
  then show ?thesis using assms by (simp add: forward_def)
next
  case (Inr x1)
  then have sz: "size1 x1 = size1 x" by (rule size1_embedding)
  show ?thesis
  proof (cases "add_positional st (pos_embbedings m) (size1 x1) x1")
    case (Inl e)
    then show ?thesis using assms Inr by (simp add: forward_def Let_def)
  next
    case x2: (Inr x2)
    have "fst (forward m st x (Some mk))
        = fst (bind_run (run_layers (layers m) 0 st (transpose x2) (Some t))
             (\<lambda>x4. lift (linear st (output_layer_weight m) (output_layer_bias m) x4)))"
      using Inr x2 assms(2) sz by (simp add: forward_def Let_def)
    with assms fst_bind_run_subset
    have "ev \<in> set (fst (run_layers (layers m) 0 st (transpose x2) (Some t)))"
      by (fastforce simp: lift_def)
    then show ?thesis using run_layers_events by blast
  qed
qed

lemma decode_step_events:
  assumes "ev \<in> set (fst (decode_step m st rank draw temperature top_p i ids))"
  shows "ev = MaskIsNone \<or> (\<exists>k. ev = AttentionCall k None)"
proof -
  from assms fst_bind_run_subset
  have "ev \<in> set (fst (forward m st [ids] None))"
    unfolding decode_step_def by (fastforce simp: lift_def)
  then show ?thesis by (rule forward_events_none)
qed

lemma generate_loop_events:
  "ev \<in> set (fst (generate_loop tok m st rank draw temperature top_p n i ids)) \<Longrightarrow>
   ev = MaskIsNone \<or> (\<exists>k. ev = AttentionCall k None)"
proof (induction n arbitrary: i ids)
  case 0
  then show ?case by simp
next
  case (Suc n)
  from Suc.prems fst_bind_run_subset
  have "ev \<in> set (fst (decode_step m st rank draw temperature top_p i ids))
      \<or> (\<exists>nx. ev \<in> set (fst (if nx = eot_token tok then ([], Inr ids)
             else generate_loop tok m st rank draw temperature top_p n (Suc i) (ids @ [nx]))))"
    by fastforce
  then show ?case
  proof
    assume "ev \<in> set (fst (decode_step m st rank draw temperature top_p i ids))"
    then show ?thesis by (rule decode_step_events)
  next
    assume "\<exists>nx. ev \<in> set (fst (if nx = eot_token tok then ([], Inr ids)
             else generate_loop tok m st rank draw temperature top_p n (Suc i) (ids @ [nx])))"
    then obtain nx where "ev \<in> set (fst (generate_loop tok m st rank draw temperature top_p n (Suc i) (ids @ [nx])))"
      by (auto split: if_splits)
    then show ?thesis by (rule Suc.IH)
  qed
qed

text \<open>
  Claim C10. In every generation call, every forward pass runs with no mask: the run
  shows only the line \<open>Mask is None\<close> and attention calls whose \<open>attn_mask\<close> is
  \<open>None\<close>, in every block and at every decoding step.
\<close>

theorem generate_text_no_mask:
  "\<forall>ev\<in>set (fst (generate_text tok m st rank draw input_text temperature top_p)).
     ev = MaskIsNone \<or> (\<exists>k. ev = AttentionCall k None)"
proof
  fix ev assume ev: "ev \<in> set (fst (generate_text tok m st rank draw input_text temperature top_p))"
  then have "strip input_text \<noteq> []" "encode tok input_text \<noteq> []"
    by (auto simp: generate_text_def Let_def split: if_splits)
  with ev fst_bind_run_subset
  have "ev \<in> set (fst (generate_loop tok m st rank draw temperature top_p (model_sequence_length m) 0
                         (encode tok input_text)))"
    unfolding generate_text_def Let_def by (fastforce simp: lift_def)
  then show "ev = MaskIsNone \<or> (\<exists>k. ev = AttentionCall k None)"
    by (rule generate_loop_events)
qed

lemma set_argsort_any: "set (argsort_descending rank ls) = {0..<length ls}"
  by (auto simp: argsort_descending_def Let_def)

lemma length_argsort_any: "length (argsort_descending rank ls) = length ls"
proof -
  have "length (filter P xs) + length (filter (\<lambda>i. \<not> P i) xs) = length xs" for P and xs :: "nat list"
    by (rule sum_length_filter_compl)
  from this [of "\<lambda>i. ls ! i \<noteq> NegInf"] show ?thesis
    by (simp add: argsort_descending_def Let_def)
qed

lemma sum_list_all_zero: "\<forall>x\<in>set xs. f x = (0::real) \<Longrightarrow> sum_list (map f xs) = 0"
  by (induction xs) auto

lemma top_p_filtering_empty: "top_p_filtering rank [] top_p fv = Inl IndexError"
  by (simp add: top_p_filtering_def argsort_descending_def softmax_def cumsum_def)

lemma top_p_filtering_all_neginf:
  assumes "ls \<noteq> []" and "\<forall>l\<in>set ls. l = NegInf"
  shows "top_p_filtering rank ls top_p fv = Inr ls"
proof -
  define perm where "perm = argsort_descending rank ls"
  define sorted_logits where "sorted_logits = map (\<lambda>i. ls ! i) perm"
  have len: "length sorted_logits = length ls"
    by (simp add: sorted_logits_def perm_def length_argsort_any)
  then have ne: "sorted_logits \<noteq> []" using assms(1) by auto
  have "\<forall>l\<in>set sorted_logits. l = NegInf"
    using assms(2) set_argsort_any [of rank ls] by (auto simp: sorted_logits_def perm_def)
  then have "\<forall>l\<in>set sorted_logits. exp_logit l = 0"
    by (auto simp: exp_logit_def)
  then have "sum_list (map exp_logit sorted_logits) = 0"
    by (rule sum_list_all_zero)
  then have sm: "softmax sorted_logits = None"
    using ne by (simp add: softmax_def)
  define shifted where
    "shifted = take 1 (map (\<lambda>l. False) sorted_logits) @ butlast (map (\<lambda>l. False) sorted_logits)"
  have sh_ne: "shifted \<noteq> []" using ne by (cases sorted_logits) (auto simp: shifted_def)
  have "\<forall>b\<in>set shifted. \<not> b"
    by (auto simp: shifted_def dest: in_set_takeD in_set_butlastD)
  then have "\<forall>b\<in>set (shifted[0 := False]). \<not> b"
    by (metis insertE set_update_subset_insert subsetD)
  then have "select (shifted[0 := False]) perm = []"
    by (rule select_all_false)
  then show ?thesis
    unfolding top_p_filtering_def Let_def perm_def [symmetric] sorted_logits_def [symmetric] sm
      option.case shifted_def [symmetric]
    using sh_ne by simp
qed

lemma softmax_all_neginf:
  assumes "ls \<noteq> []" and "\<forall>l\<in>set ls. l = NegInf"
  shows "softmax ls = None"
proof -
  have "\<forall>l\<in>set ls. exp_logit l = 0"
    using assms(2) by (auto simp: exp_logit_def)
  then have "sum_list (map exp_logit ls) = 0" by (rule sum_list_all_zero)
  then show ?thesis using assms(1) by (simp add: softmax_def)
qed

lemma divide_by_zero_cases:
  "divide_float l 0 = PlusInf \<or> divide_float l 0 = NotANumber \<or> divide_float l 0 = MinusInf"
  by (simp add: divide_float_def)

lemma zero_temperature_row:
  "(let logits = map (\<lambda>l. divide_float l 0) row
    in if list_ex (\<lambda>q. q = PlusInf \<or> q = NotANumber) logits then Inl ValueError
       else
         (case top_p_filtering r (map to_logit logits) top_p NegInf of
            Inl e \<Rightarrow> Inl e
          | Inr filtered_logits \<Rightarrow>
              (case softmax filtered_logits of
                 None \<Rightarrow> Inl ValueError
               | Some probabilities \<Rightarrow>
                   (case sample_token u probabilities of
                      Inl e \<Rightarrow> Inl e
                    | Inr next_token_id \<Rightarrow> Inr (int next_token_id)))))
   = (if row = [] then Inl IndexError else Inl ValueError)"
proof (cases "row = []")
  case True
  then show ?thesis by (simp add: top_p_filtering_empty)
next
  case False
  show ?thesis
  proof (cases "list_ex (\<lambda>q. q = PlusInf \<or> q = NotANumber) (map (\<lambda>l. divide_float l 0) row)")
    case True
    then show ?thesis using False by (simp add: Let_def)
  next
    case none: False
    define ls where "ls = map to_logit (map (\<lambda>l. divide_float l 0) row)"
    have "\<forall>l\<in>set row. divide_float l 0 = MinusInf"
      using none divide_by_zero_cases by (auto simp: list_ex_iff)
    then have all: "\<forall>l\<in>set ls. l = NegInf"
      by (auto simp: ls_def to_logit_def)
    have ne: "ls \<noteq> []" using False by (simp add: ls_def)
    have "top_p_filtering r ls top_p NegInf = Inr ls"
      using ne all by (rule top_p_filtering_all_neginf)
    moreover have "softmax ls = None"
      using ne all by (rule softmax_all_neginf)
    ultimately show ?thesis
      unfolding Let_def ls_def [symmetric]
      using none False by simp
  qed
qed

lemma decode_step_zero:
  "decode_step m st rank draw 0 top_p i ids
     = bind_run (forward m st [ids] None) (\<lambda>outputs.
         lift (case select_logits outputs of
                 Inl e \<Rightarrow> Inl e
               | Inr row \<Rightarrow> if row = [] then Inl IndexError else Inl ValueError))"
  unfolding decode_step_def zero_temperature_row ..

lemma decode_step_zero_error: "\<exists>e. snd (decode_step m st rank draw 0 top_p i ids) = Inl e"
  unfolding decode_step_zero
  by (cases "snd (forward m st [ids] None)")
     (auto simp: bind_run_def lift_def split: sum.splits)

lemma member_le_sum_nonneg:
  assumes "\<forall>x\<in>set xs. (0::real) \<le> x" and "k < length xs"
  shows "xs ! k \<le> sum_list xs"
  using assms
proof (induction xs arbitrary: k)
  case Nil
  then show ?case by simp
next
  case (Cons x xs)
  have "0 \<le> sum_list xs" using Cons.prems(1) by (intro sum_list_nonneg) simp
  then show ?case using Cons by (cases k) (auto intro: add_increasing)
qed

lemma softmax_with_finite_entry:
  assumes "k < length ls" and "ls ! k = Fin x"
  shows "\<exists>probs. softmax ls = Some probs \<and> length probs = length ls \<and> 0 < probs ! k"
proof -
  define z where "z = sum_list (map exp_logit ls)"
  have "map exp_logit ls ! k \<le> z"
    unfolding z_def using assms(1) by (intro member_le_sum_nonneg) (auto simp: exp_logit_nonneg)
  moreover have "map exp_logit ls ! k = exp x"
    using assms by (simp add: exp_logit_def)
  ultimately have z: "0 < z"
    using exp_gt_zero [of x] by linarith
  have "ls \<noteq> []" using assms(1) by auto
  then have "softmax ls = Some (map (\<lambda>l. exp_logit l / z) ls)"
    using z by (simp add: softmax_def z_def)
  moreover have "0 < map (\<lambda>l. exp_logit l / z) ls ! k"
    using assms z by (simp add: exp_logit_def)
  ultimately show ?thesis by simp
qed

lemma sample_token_positive:
  assumes "k < length probs" and "0 < probs ! k"
  shows "\<exists>tok. sample_token u probs = Inr tok \<and> tok < length probs \<and> 0 < probs ! tok"
proof -
  define support where "support = filter (\<lambda>k. 0 < probs ! k) [0..<length probs]"
  have "k \<in> set support" using assms by (simp add: support_def)
  then have ne: "support \<noteq> []" by auto
  then have "u mod length support < length support" by simp
  then have "support ! (u mod length support) \<in> set support" by (rule nth_mem)
  then have "support ! (u mod length support) < length probs
           \<and> 0 < probs ! (support ! (u mod length support))"
    by (simp add: support_def)
  moreover have "sample_token u probs = Inr (support ! (u mod length support))"
    using ne by (simp add: sample_token_def support_def [symmetric] Let_def)
  ultimately show ?thesis by blast
qed

lemma decode_step_samples:
  assumes "temperature \<noteq> 0"
      and "snd (forward m st [ids] None) = Inr outputs"
      and "select_logits outputs = Inr row"
      and "row \<noteq> []"
      and "\<forall>l\<in>set row. \<bar>l / temperature\<bar> \<le> float_max"
  shows "\<exists>filtered probs tok.
           top_p_filtering (rank i) (map (\<lambda>l. Fin (l / temperature)) row) top_p NegInf = Inr filtered
         \<and> softmax filtered = Some probs
         \<and> sample_token (draw i) probs = Inr tok
         \<and> 0 < probs ! tok
         \<and> decode_step m st rank draw temperature top_p i ids
             = (fst (forward m st [ids] None), Inr (int tok))"
proof -
  define xs where "xs = map (\<lambda>l. l / temperature) row"
  have xs_ne: "xs \<noteq> []" using assms(4) by (simp add: xs_def)
  have q: "map (\<lambda>l. divide_float l temperature) row = map Quot xs"
    using assms(1,5) by (simp add: xs_def divide_float_finite)
  have no_inf: "\<not> list_ex (\<lambda>q. q = PlusInf \<or> q = NotANumber) (map Quot xs)"
    by (simp add: list_ex_iff)
  have tl: "map (to_logit \<circ> Quot) xs = map Fin xs"
    by (simp add: to_logit_def)
  from top_p_filtering_fin [OF xs_ne, of "rank i" top_p NegInf]
  obtain filtered where f: "top_p_filtering (rank i) (map Fin xs) top_p NegInf = Inr filtered"
    and len: "length filtered = length xs"
    and entries: "\<forall>j<length xs. filtered ! (argsort_descending (rank i) (map Fin xs) ! j) =
           (if 0 < j \<and> top_p < sum_list (map (\<lambda>i. exp (xs ! i))
                                     (take j (argsort_descending (rank i) (map Fin xs))))
                                 / sum_list (map exp xs)
            then NegInf else Fin (xs ! (argsort_descending (rank i) (map Fin xs) ! j)))"
    unfolding Let_def by blast
  define top where "top = argsort_descending (rank i) (map Fin xs) ! 0"
  have top_lt: "top < length filtered"
    using xs_ne len unfolding top_def by (simp add: argsort_lt)
  have "filtered ! top = Fin (xs ! top)"
    using entries xs_ne unfolding top_def by simp
  with top_lt obtain probs where p: "softmax filtered = Some probs" "length probs = length filtered"
      "0 < probs ! top"
    using softmax_with_finite_entry by blast
  then obtain tok where t: "sample_token (draw i) probs = Inr tok" "0 < probs ! tok"
    using sample_token_positive [of top probs "draw i"] top_lt by auto
  have "decode_step m st rank draw temperature top_p i ids
          = (fst (forward m st [ids] None), Inr (int tok))"
    unfolding decode_step_def using assms(2,3) no_inf
    by (simp add: bind_run_Inr lift_def Let_def q tl f p(1) t(1))
  with f p(1) t show ?thesis unfolding xs_def map_map o_def by blast
qed

lemma generate_loop_stops:
  assumes "snd (decode_step m st rank draw temperature top_p i ids) = Inr (eot_token tok)"
  shows "generate_loop tok m st rank draw temperature top_p (Suc n) i ids
           = (fst (decode_step m st rank draw temperature top_p i ids), Inr ids)"
  using assms by (simp add: bind_run_Inr)

lemma generate_loop_fails:
  assumes "snd (decode_step m st rank draw temperature top_p i ids) = Inl e"
  shows "snd (generate_loop tok m st rank draw temperature top_p (Suc n) i ids) = Inl e"
  using assms by (simp add: bind_run_def)

lemma toy_select_1: "select_logits [[[0, 0, ln 38]]] = Inr [0, 0, ln 38]"
  by (simp add: select_logits_def py_index_def)

lemma toy_select_2: "select_logits [[[0, 0, ln 38]], [[0, 0, ln 38]]] = Inr [0, 0, ln 38]"
  by (simp add: select_logits_def py_index_def)

lemma toy_quotients:
  "divide_float 0 1 = Quot 0" "divide_float (ln 38) 1 = Quot (ln 38)"
  "divide_float 0 (- 1) = Quot 0" "divide_float (ln 38) (- 1) = Quot (- ln 38)"
  using toy_divide_plain toy_divide_negated by simp_all

lemma toy_step_plain:
  "decode_step toy_model toy_store (\<lambda>i k. k) draw 1 (9 / 10) i [0]
     = ([MaskIsNone, AttentionCall 0 None], Inr 2)"
  by (simp add: decode_step_def toy_forward_1 toy_select_1 toy_quotients to_logit_def
        toy_filter_plain toy_softmax_plain toy_sample_plain lift_def Let_def)

lemma toy_step_negated_1:
  "decode_step toy_model toy_store (\<lambda>i k. k) (\<lambda>i. 0) (- 1) (9 / 10) i [0]
     = ([MaskIsNone, AttentionCall 0 None], Inr 0)"
  by (simp add: decode_step_def toy_forward_1 toy_select_1 toy_quotients to_logit_def
        toy_filter_negated toy_softmax_negated toy_sample_negated lift_def Let_def)

lemma toy_step_negated_2:
  "decode_step toy_model toy_store (\<lambda>i k. k) (\<lambda>i. 0) (- 1) (9 / 10) i [0, 0]
     = ([MaskIsNone, AttentionCall 0 None], Inr 0)"
  by (simp add: decode_step_def toy_forward_2 toy_select_2 toy_quotients to_logit_def
        toy_filter_negated toy_softmax_negated toy_sample_negated lift_def Let_def)

lemma toy_step_zero:
  "decode_step toy_model toy_store rank draw 0 top_p i [0]
     = ([MaskIsNone, AttentionCall 0 None], Inl ValueError)"
  by (simp add: decode_step_zero toy_forward_1 toy_select_1 lift_def)

lemma toy_prompt:
  "strip ''A'' \<noteq> []" "encode toy_tokenizer ''A'' = [0]" "eot_token toy_tokenizer = 2"
  "model_sequence_length toy_model = Suc (Suc 0)"
  by (simp_all add: strip_def is_space_def toy_tokenizer_def toy_model_def)

lemma toy_generate_plain:
  "generate_text toy_tokenizer toy_model toy_store (\<lambda>i k. k) draw ''A'' 1 (9 / 10)
     = ([MaskIsNone, AttentionCall 0 None], Inr ''A'')"
proof -
  have "snd (decode_step toy_model toy_store (\<lambda>i k. k) draw 1 (9 / 10) 0 [0])
          = Inr (eot_token toy_tokenizer)"
    by (simp add: toy_step_plain toy_prompt)
  then have "generate_loop toy_tokenizer toy_model toy_store (\<lambda>i k. k) draw 1 (9 / 10) (Suc (Suc 0)) 0 [0]
          = (fst (decode_step toy_model toy_store (\<lambda>i k. k) draw 1 (9 / 10) 0 [0]), Inr [0])"
    by (rule generate_loop_stops)
  then have loop: "generate_loop toy_tokenizer toy_model toy_store (\<lambda>i k. k) draw 1 (9 / 10) (Suc (Suc 0)) 0 [0]
          = ([MaskIsNone, AttentionCall 0 None], Inr [0])"
    by (simp add: toy_step_plain)
  have dec: "decode toy_tokenizer [0] = Inr ''A''" by (simp add: toy_tokenizer_def)
  show ?thesis
    unfolding generate_text_def Let_def toy_prompt(2,4) loop
    using toy_prompt(1) by (simp add: dec lift_def)
qed

lemma toy_generate_negated:
  "generate_text toy_tokenizer toy_model toy_store (\<lambda>i k. k) (\<lambda>i. 0) ''A'' (- 1) (9 / 10)
     = ([MaskIsNone, AttentionCall 0 None, MaskIsNone, AttentionCall 0 None], Inr ''AAA'')"
proof -
  have loop: "generate_loop toy_tokenizer toy_model toy_store (\<lambda>i k. k) (\<lambda>i. 0) (- 1) (9 / 10)
                (Suc (Suc 0)) 0 [0]
          = ([MaskIsNone, AttentionCall 0 None, MaskIsNone, AttentionCall 0 None], Inr [0, 0, 0])"
    by (simp add: toy_step_negated_1 toy_step_negated_2 toy_prompt(3))
  have dec: "decode toy_tokenizer [0, 0, 0] = Inr ''AAA''" by (simp add: toy_tokenizer_def)
  show ?thesis
    unfolding generate_text_def Let_def toy_prompt(2,4) loop
    using toy_prompt(1) by (simp add: dec lift_def)
qed

lemma toy_generate_zero:
  "generate_text toy_tokenizer toy_model toy_store rank draw ''A'' 0 top_p
     = ([MaskIsNone, AttentionCall 0 None], Inl ValueError)"
proof -
  have loop: "generate_loop toy_tokenizer toy_model toy_store rank draw 0 top_p (Suc (Suc 0)) 0 [0]
          = ([MaskIsNone, AttentionCall 0 None], Inl ValueError)"
    by (simp add: toy_step_zero)
  show ?thesis
    unfolding generate_text_def Let_def toy_prompt(2,4) loop
    using toy_prompt(1) by simp
qed

text \<open>
  Claim C1, amended. When the token sampled in the first iteration is the tokenizer's
  end-of-text token, the loop stops in that iteration (the run is that of one decoding
  step) and the result decodes the prompt's tokens alone: the end-of-text token is not
  appended.
\<close>

theorem generate_text_eot_first:
  assumes "strip input_text \<noteq> []"
      and "encode tok input_text \<noteq> []"
      and "0 < model_sequence_length m"
      and "snd (decode_step m st rank draw temperature top_p 0 (encode tok input_text))
             = Inr (eot_token tok)"
  shows "generate_text tok m st rank draw input_text temperature top_p
           = (fst (decode_step m st rank draw temperature top_p 0 (encode tok input_text)),
              decode tok (encode tok input_text))"
proof -
  from assms(3) obtain n where n: "model_sequence_length m = Suc n"
    by (cases "model_sequence_length m") auto
  have "generate_loop tok m st rank draw temperature top_p (Suc n) 0 (encode tok input_text)
          = (fst (decode_step m st rank draw temperature top_p 0 (encode tok input_text)),
             Inr (encode tok input_text))"
    using assms(4) by (rule generate_loop_stops)
  then show ?thesis
    using assms(1,2) n by (simp add: generate_text_def Let_def bind_run_def lift_def)
qed

text \<open>
  On the toy instance at temperature 1 and \<open>top_p = 9/10\<close> the filter leaves the
  end-of-text token 2 alone, so every draw samples it.
\<close>

theorem generate_text_eot_first_witness:
  "strip ''A'' \<noteq> []
   \<and> encode toy_tokenizer ''A'' \<noteq> []
   \<and> 0 < model_sequence_length toy_model
   \<and> snd (decode_step toy_model toy_store (\<lambda>i k. k) (\<lambda>i. 0) 1 (9 / 10) 0 (encode toy_tokenizer ''A''))
       = Inr (eot_token toy_tokenizer)
   \<and> generate_text toy_tokenizer toy_model toy_store (\<lambda>i k. k) (\<lambda>i. 0) ''A'' 1 (9 / 10)
       = ([MaskIsNone, AttentionCall 0 None], Inr ''A'')"
proof -
  have h1: "strip ''A'' \<noteq> []" by (rule toy_prompt(1))
  have h2: "encode toy_tokenizer ''A'' \<noteq> []" by (simp add: toy_prompt(2))
  have h3: "0 < model_sequence_length toy_model" by (simp add: toy_prompt(4))
  have h4: "snd (decode_step toy_model toy_store (\<lambda>i k. k) (\<lambda>i. 0) 1 (9 / 10) 0 (encode toy_tokenizer ''A''))
       = Inr (eot_token toy_tokenizer)"
    by (simp add: toy_prompt toy_step_plain)
  have "decode toy_tokenizer [0] = Inr ''A''" by (simp add: toy_tokenizer_def)
  with generate_text_eot_first [OF h1 h2 h3 h4] h1 h2 h3 h4 show ?thesis
    by (simp add: toy_prompt(2) toy_step_plain)
qed

text \<open>
  Claim C1, as stated, fails on the toy instance: the first sampled token is the
  end-of-text token 2, and the result is the text of the prompt tokens, not of the
  prompt tokens followed by 2.
\<close>

theorem generate_text_eot_counterexample:
  "snd (decode_step toy_model toy_store (\<lambda>i k. k) (\<lambda>i. 0) 1 (9 / 10) 0 (encode toy_tokenizer ''A''))
     = Inr (eot_token toy_tokenizer)
   \<and> snd (generate_text toy_tokenizer toy_model toy_store (\<lambda>i k. k) (\<lambda>i. 0) ''A'' 1 (9 / 10))
       = Inr ''A''
   \<and> decode toy_tokenizer (encode toy_tokenizer ''A'' @ [eot_token toy_tokenizer]) = Inr ''A.''
   \<and> snd (generate_text toy_tokenizer toy_model toy_store (\<lambda>i k. k) (\<lambda>i. 0) ''A'' 1 (9 / 10))
       \<noteq> decode toy_tokenizer (encode toy_tokenizer ''A'' @ [eot_token toy_tokenizer])"
  by (simp add: toy_generate_plain toy_prompt toy_step_plain) (simp add: toy_tokenizer_def)

text \<open>
  Claim C4, as stated, fails: with temperature \<open>-1\<close> the toy run is not rejected. The
  negated logits \<open>0, 0, - ln 38\<close> have probabilities \<open>38/77, 38/77, 1/77\<close>; the filter
  removes token 2, the draw 0 samples token 0 in both iterations, and the call returns
  a text.
\<close>

theorem generate_text_negative_temperature_counterexample:
  "(- 1 :: real) \<le> 0
   \<and> decode_step toy_model toy_store (\<lambda>i k. k) (\<lambda>i. 0) (- 1) (9 / 10) 0 [0]
       = ([MaskIsNone, AttentionCall 0 None], Inr 0)
   \<and> generate_text toy_tokenizer toy_model toy_store (\<lambda>i k. k) (\<lambda>i. 0) ''A'' (- 1) (9 / 10)
       = ([MaskIsNone, AttentionCall 0 None, MaskIsNone, AttentionCall 0 None], Inr ''AAA'')"
  by (simp add: toy_generate_negated toy_step_negated_1)

text \<open>
  Claim C4, amended. \<open>generate_text\<close> has no check of the temperature. With temperature
  0 every decoding step ends in an error, whatever the random draw would be: the error
  of the forward pass or of the indexing, or else the error that the division by zero
  (infinite or undefined logits) provokes when the distribution is built; so a call with
  a non-empty prompt and a positive \<open>sequence_length\<close> fails in its first iteration,
  after the forward pass. With a
  negative temperature nothing is rejected: a step whose forward pass yields logits,
  the quotients staying within the float range, filters the quotients and samples a
  token of positive probability.
\<close>

theorem generate_text_temperature:
  "(\<exists>e. snd (decode_step m st rank draw 0 top_p i ids) = Inl e)
   \<and> decode_step m st rank draw 0 top_p i ids = decode_step m st rank draw' 0 top_p i ids
   \<and> (strip input_text \<noteq> [] \<and> encode tok input_text \<noteq> [] \<and> 0 < model_sequence_length m \<longrightarrow>
        (\<exists>e. generate_text tok m st rank draw input_text 0 top_p
                = (fst (decode_step m st rank draw 0 top_p 0 (encode tok input_text)), Inl e)))
   \<and> (temperature < 0 \<and> snd (forward m st [ids] None) = Inr outputs
        \<and> select_logits outputs = Inr row \<and> row \<noteq> []
        \<and> (\<forall>l\<in>set row. \<bar>l / temperature\<bar> \<le> float_max) \<longrightarrow>
        (\<exists>filtered probs next_token.
           top_p_filtering (rank i) (map (\<lambda>l. Fin (l / temperature)) row) top_p NegInf = Inr filtered
         \<and> softmax filtered = Some probs
         \<and> sample_token (draw i) probs = Inr next_token
         \<and> 0 < probs ! next_token
         \<and> decode_step m st rank draw temperature top_p i ids
             = (fst (forward m st [ids] None), Inr (int next_token))))"
proof (intro conjI impI)
  show "\<exists>e. snd (decode_step m st rank draw 0 top_p i ids) = Inl e"
    by (rule decode_step_zero_error)
  show "decode_step m st rank draw 0 top_p i ids = decode_step m st rank draw' 0 top_p i ids"
    by (simp only: decode_step_zero)
next
  assume a: "strip input_text \<noteq> [] \<and> encode tok input_text \<noteq> [] \<and> 0 < model_sequence_length m"
  then obtain n where n: "model_sequence_length m = Suc n"
    by (cases "model_sequence_length m") auto
  obtain e where e: "snd (decode_step m st rank draw 0 top_p 0 (encode tok input_text)) = Inl e"
    using decode_step_zero_error by blast
  then have "generate_loop tok m st rank draw 0 top_p (Suc n) 0 (encode tok input_text)
      = (fst (decode_step m st rank draw 0 top_p 0 (encode tok input_text)), Inl e)"
    by (simp add: bind_run_def)
  then have "generate_text tok m st rank draw input_text 0 top_p
                = (fst (decode_step m st rank draw 0 top_p 0 (encode tok input_text)), Inl e)"
    using a n by (simp add: generate_text_def Let_def)
  then show "\<exists>e. generate_text tok m st rank draw input_text 0 top_p
                = (fst (decode_step m st rank draw 0 top_p 0 (encode tok input_text)), Inl e)"
    by blast
next
  assume a: "temperature < 0 \<and> snd (forward m st [ids] None) = Inr outputs
        \<and> select_logits outputs = Inr row \<and> row \<noteq> []
        \<and> (\<forall>l\<in>set row. \<bar>l / temperature\<bar> \<le> float_max)"
  then have "temperature \<noteq> 0" by simp
  with a show "\<exists>filtered probs next_token.
           top_p_filtering (rank i) (map (\<lambda>l. Fin (l / temperature)) row) top_p NegInf = Inr filtered
         \<and> softmax filtered = Some probs
         \<and> sample_token (draw i) probs = Inr next_token
         \<and> 0 < probs ! next_token
         \<and> decode_step m st rank draw temperature top_p i ids
             = (fst (forward m st [ids] None), Inr (int next_token))"
    using decode_step_samples [of temperature m st ids outputs row rank i top_p draw] by blast
qed

text \<open>
  The toy instance at temperature \<open>-1\<close> (token 0 is sampled) and at temperature 0 (the
  step and the call end in \<open>ValueError\<close> after one forward pass).
\<close>

theorem generate_text_temperature_witness:
  "(- 1 :: real) < 0
   \<and> snd (forward toy_model toy_store [[0]] None) = Inr [[[0, 0, ln 38]]]
   \<and> select_logits [[[0, 0, ln 38]]] = Inr [0, 0, ln 38]
   \<and> [0, 0, ln (38 :: real)] \<noteq> []
   \<and> \<bar>0 / (- 1 :: real)\<bar> \<le> float_max
   \<and> \<bar>ln 38 / (- 1 :: real)\<bar> \<le> float_max
   \<and> top_p_filtering (\<lambda>k. k) (map (\<lambda>l. Fin (l / (- 1))) [0, 0, ln 38]) (9 / 10) NegInf
       = Inr [Fin 0, Fin 0, NegInf]
   \<and> softmax [Fin 0, Fin 0, NegInf] = Some [1 / 2, 1 / 2, 0]
   \<and> sample_token 0 [1 / 2, 1 / 2, 0] = Inr 0
   \<and> decode_step toy_model toy_store (\<lambda>i k. k) (\<lambda>i. 0) (- 1) (9 / 10) 0 [0]
       = ([MaskIsNone, AttentionCall 0 None], Inr 0)
   \<and> strip ''A'' \<noteq> []
   \<and> encode toy_tokenizer ''A'' \<noteq> []
   \<and> 0 < model_sequence_length toy_model
   \<and> decode_step toy_model toy_store (\<lambda>i k. k) (\<lambda>i. 0) 0 (9 / 10) 0 [0]
       = ([MaskIsNone, AttentionCall 0 None], Inl ValueError)
   \<and> generate_text toy_tokenizer toy_model toy_store (\<lambda>i k. k) (\<lambda>i. 0) ''A'' 0 (9 / 10)
       = ([MaskIsNone, AttentionCall 0 None], Inl ValueError)"
proof -
  have h1: "(- 1 :: real) < 0" by simp
  have h2: "snd (forward toy_model toy_store [[0]] None) = Inr [[[0, 0, ln 38]]]"
    by (simp add: toy_forward_1)
  have h3: "select_logits [[[0, 0, ln 38]]] = Inr [0, 0, ln 38]" by (rule toy_select_1)
  have h4: "[0, 0, ln (38 :: real)] \<noteq> []" by simp
  have h5: "\<bar>0 / (- 1 :: real)\<bar> \<le> float_max" using float_max_pos by simp
  have h6: "\<bar>ln 38 / (- 1 :: real)\<bar> \<le> float_max" using ln_38_float by simp
  have h7: "\<forall>l\<in>set [0, 0, ln (38 :: real)]. \<bar>l / (- 1)\<bar> \<le> float_max"
    using h5 h6 by simp
  have g1: "strip ''A'' \<noteq> []" by (rule toy_prompt(1))
  have g2: "encode toy_tokenizer ''A'' \<noteq> []" by (simp add: toy_prompt(2))
  have g3: "0 < model_sequence_length toy_model" by (simp add: toy_prompt(4))
  note inst = generate_text_temperature [where m = toy_model and st = toy_store
      and rank = "\<lambda>i k. k" and draw = "\<lambda>i. 0" and draw' = "\<lambda>i. 0" and top_p = "9 / 10"
      and i = 0 and ids = "[0]" and input_text = "''A''" and tok = toy_tokenizer
      and temperature = "- 1" and outputs = "[[[0, 0, ln 38]]]" and row = "[0, 0, ln 38]"]
  from inst obtain e where e: "snd (decode_step toy_model toy_store (\<lambda>i k. k) (\<lambda>i. 0) 0 (9 / 10) 0 [0]) = Inl e"
    by blast
  from inst g1 g2 g3 obtain e' where e': "generate_text toy_tokenizer toy_model toy_store (\<lambda>i k. k) (\<lambda>i. 0) ''A'' 0 (9 / 10)
       = (fst (decode_step toy_model toy_store (\<lambda>i k. k) (\<lambda>i. 0) 0 (9 / 10) 0 (encode toy_tokenizer ''A'')), Inl e')"
    by blast
  from inst h1 h2 h3 h4 h7 obtain filtered probs next_token where s:
    "top_p_filtering (\<lambda>k. k) (map (\<lambda>l. Fin (l / (- 1))) [0, 0, ln 38]) (9 / 10) NegInf = Inr filtered"
    "softmax filtered = Some probs"
    "sample_token 0 probs = Inr next_token"
    "decode_step toy_model toy_store (\<lambda>i k. k) (\<lambda>i. 0) (- 1) (9 / 10) 0 [0]
       = (fst (forward toy_model toy_store [[0]] None), Inr (int next_token))"
    by blast
  have f: "top_p_filtering (\<lambda>k. k) (map (\<lambda>l. Fin (l / (- 1))) [0, 0, ln 38]) (9 / 10) NegInf
       = Inr [Fin 0, Fin 0, NegInf]"
    using toy_filter_negated by simp
  with s(1) have filtered: "filtered = [Fin 0, Fin 0, NegInf]" by simp
  with s(2) have probs: "probs = [1 / 2, 1 / 2, 0]" by (simp add: toy_softmax_negated)
  with s(3) have tok: "next_token = 0" by (simp add: toy_sample_negated)
  have d: "decode_step toy_model toy_store (\<lambda>i k. k) (\<lambda>i. 0) (- 1) (9 / 10) 0 [0]
       = ([MaskIsNone, AttentionCall 0 None], Inr 0)"
    using s(4) tok by (simp add: toy_forward_1)
  have e_val: "e = ValueError" using e by (simp add: toy_step_zero)
  have z: "decode_step toy_model toy_store (\<lambda>i k. k) (\<lambda>i. 0) 0 (9 / 10) 0 [0]
       = ([MaskIsNone, AttentionCall 0 None], Inl ValueError)"
    by (rule toy_step_zero)
  have e'_val: "e' = ValueError" using e' by (simp add: toy_generate_zero)
  have gz: "generate_text toy_tokenizer toy_model toy_store (\<lambda>i k. k) (\<lambda>i. 0) ''A'' 0 (9 / 10)
       = ([MaskIsNone, AttentionCall 0 None], Inl ValueError)"
    using e' e'_val by (simp add: toy_prompt(2) toy_step_zero)
  show ?thesis
    using h1 h2 h3 h4 h5 h6 f toy_softmax_negated toy_sample_negated d g1 g2 g3 z gz
    by (intro conjI)
qed

text \<open>The two forward passes of the toy run at temperature \<open>-1\<close>.\<close>

theorem generate_text_no_mask_witness:
  "fst (generate_text toy_tokenizer toy_model toy_store (\<lambda>i k. k) (\<lambda>i. 0) ''A'' (- 1) (9 / 10))
     = [MaskIsNone, AttentionCall 0 None, MaskIsNone, AttentionCall 0 None]
   \<and> (AttentionCall 0 None = MaskIsNone \<or> (\<exists>k. AttentionCall 0 None = AttentionCall k None))"
proof -
  have "AttentionCall 0 None \<in> set (fst (generate_text toy_tokenizer toy_model toy_store
          (\<lambda>i k. k) (\<lambda>i. 0) ''A'' (- 1) (9 / 10)))"
    by (simp add: toy_generate_negated)
  with generate_text_no_mask [of toy_tokenizer toy_model toy_store "\<lambda>i k. k" "\<lambda>i. 0" "''A''" "- 1" "9 / 10"]
  have "AttentionCall 0 None = MaskIsNone \<or> (\<exists>k. AttentionCall 0 None = AttentionCall k None)"
    by (rule bspec)
  then show ?thesis by (simp add: toy_generate_negated)
qed

lemma init_tied:
  assumes "GPTModel_init E nl H V bs L me file emb lin mk h = Inr (m, h')"
  shows "output_layer_weight m = embedding_weight m \<and> output_layer_bias m = None"
  using assms
  by (auto simp: GPTModel_init_def Let_def split: option.splits sum.splits prod.splits)

lemma fold_update_params:
  assumes "distinct as"
  shows "fold (\<lambda>a s. case s a of None \<Rightarrow> s | Some t \<Rightarrow> s(a \<mapsto> upd a t)) as st a'
           = (if a' \<in> set as then map_option (upd a') (st a') else st a')"
  using assms
proof (induction as arbitrary: st)
  case Nil
  then show ?case by simp
next
  case (Cons a as)
  then show ?case by (cases "st a") auto
qed

lemma optimizer_step_at:
  "a \<in> set (parameters m) \<Longrightarrow> optimizer_step upd m st a = map_option (upd a) (st a)"
  unfolding optimizer_step_def
  by (subst fold_update_params) (simp_all add: parameters_def)

lemma embedding_is_parameter: "embedding_weight m \<in> set (parameters m)"
  by (simp add: parameters_def)

text \<open>
  Claim C7. A constructed model has an output layer without bias whose weight is the
  address of the embedding weight. So both names read the same tensor in every store:
  an optimizer step replaces it once and both see the update, after any number of
  steps, and a write through one name is read through the other.
\<close>

theorem weight_tying:
  assumes "GPTModel_init E nl H V bs L me file emb lin mk h = Inr (m, h')"
  shows "output_layer_bias m = None
       \<and> output_layer_weight m = embedding_weight m
       \<and> (\<forall>upd st. optimizer_step upd m st (output_layer_weight m)
                       = map_option (upd (embedding_weight m)) (st (embedding_weight m))
                  \<and> optimizer_step upd m st (embedding_weight m)
                       = optimizer_step upd m st (output_layer_weight m))
       \<and> (\<forall>upds st. fold (\<lambda>upd s. optimizer_step upd m s) upds st (output_layer_weight m)
                       = fold (\<lambda>upd s. optimizer_step upd m s) upds st (embedding_weight m))
       \<and> (\<forall>st t. (st(embedding_weight m \<mapsto> t)) (output_layer_weight m) = Some t)"
proof -
  from init_tied [OF assms]
  have tied: "output_layer_weight m = embedding_weight m" and nb: "output_layer_bias m = None"
    by simp_all
  show ?thesis
    using nb optimizer_step_at [OF embedding_is_parameter] by (simp add: tied)
qed

lemma toy_init:
  "GPTModel_init 2 1 1 3 1 1 1 (Some [''1 2 3'']) [[0, 0], [0, 0], [0, 0]] [[1, 1], [1, 1], [1, 1]]
      (\<lambda>idx h. (toy_block, h)) (Map.empty, 0)
   = Inr (\<lparr>embed_size = 2, heads = 1, vocab_size = 3, batch_size = 1, model_sequence_length = 1,
            max_epochs = 1, dataset_length = 1, embedding_weight = 0, pos_embbedings = 1,
            layers = [toy_block], output_layer_weight = 0, output_layer_bias = None\<rparr>,
          ([0 \<mapsto> T2 [[0, 0], [0, 0], [0, 0]], 1 \<mapsto> T3 [encoding_table 2 1],
            2 \<mapsto> T2 [[1, 1], [1, 1], [1, 1]]], 3))"
  by (simp add: GPTModel_init_def alloc_def encoding_even Let_def numeral_eq_Suc)

theorem weight_tying_witness:
  "\<exists>m h'. GPTModel_init 2 1 1 3 1 1 1 (Some [''1 2 3'']) [[0, 0], [0, 0], [0, 0]]
              [[1, 1], [1, 1], [1, 1]] (\<lambda>idx h. (toy_block, h)) (Map.empty, 0) = Inr (m, h')
     \<and> output_layer_bias m = None
     \<and> output_layer_weight m = embedding_weight m
     \<and> fst h' (output_layer_weight m) = Some (T2 [[0, 0], [0, 0], [0, 0]])
     \<and> optimizer_step (\<lambda>a t. T2 [[5, 5], [5, 5], [5, 5]]) m (fst h') (output_layer_weight m)
         = Some (T2 [[5, 5], [5, 5], [5, 5]])
     \<and> optimizer_step (\<lambda>a t. T2 [[5, 5], [5, 5], [5, 5]]) m (fst h') (embedding_weight m)
         = Some (T2 [[5, 5], [5, 5], [5, 5]])"
proof -
  let ?m = "\<lparr>embed_size = 2, heads = 1, vocab_size = 3, batch_size = 1, model_sequence_length = 1,
            max_epochs = 1, dataset_length = 1, embedding_weight = 0, pos_embbedings = 1,
            layers = [toy_block], output_layer_weight = 0, output_layer_bias = None\<rparr>"
  let ?h = "([0 \<mapsto> T2 [[0, 0], [0, 0], [0, 0]], 1 \<mapsto> T3 [encoding_table 2 1],
            2 \<mapsto> T2 [[1, 1], [1, 1], [1, 1]]], 3 :: nat)"
  from weight_tying [OF toy_init]
  have "output_layer_bias ?m = None"
    and "output_layer_weight ?m = embedding_weight ?m"
    and "\<And>upd st. optimizer_step upd ?m st (output_layer_weight ?m)
                       = map_option (upd (embedding_weight ?m)) (st (embedding_weight ?m))"
    and "\<And>upd st. optimizer_step upd ?m st (embedding_weight ?m)
                       = optimizer_step upd ?m st (output_layer_weight ?m)"
    by blast+
  then have "output_layer_bias ?m = None
     \<and> output_layer_weight ?m = embedding_weight ?m
     \<and> fst ?h (output_layer_weight ?m) = Some (T2 [[0, 0], [0, 0], [0, 0]])
     \<and> optimizer_step (\<lambda>a t. T2 [[5, 5], [5, 5], [5, 5]]) ?m (fst ?h) (output_layer_weight ?m)
         = Some (T2 [[5, 5], [5, 5], [5, 5]])
     \<and> optimizer_step (\<lambda>a t. T2 [[5, 5], [5, 5], [5, 5]]) ?m (fst ?h) (embedding_weight ?m)
         = Some (T2 [[5, 5], [5, 5], [5, 5]])"
    by simp
  with toy_init show ?thesis by blast
qed

text \<open>
  Claim C6. For a per-token mask of \<open>B\<close> rows of length \<open>S\<close> and \<open>H\<close> heads,
  \<open>create_mask\<close> returns a tensor \<open>t\<close> of shape \<open>(B * H, S, S)\<close> whose block \<open>g\<close> holds,
  at every query position \<open>q\<close>, the key-validity row of batch entry \<open>g div H\<close>: the row
  does not depend on \<open>q\<close>, so the expansion is not triangular. In the forward pass every
  attention call receives exactly \<open>t\<close> as its mask; no other mask is built.
\<close>

theorem create_mask_expansion:
  assumes "\<forall>row\<in>set msk. length row = S"
  shows "\<exists>t. create_mask H msk S = Inr t
           \<and> length t = length msk * H
           \<and> (\<forall>g<length msk * H. length (t ! g) = S
                \<and> (\<forall>q<S. length (t ! g ! q) = S \<and> t ! g ! q = msk ! (g div H)))
           \<and> (\<forall>m st x ev. heads m = H \<longrightarrow> size1 x = S \<longrightarrow>
                  ev \<in> set (fst (forward m st x (Some msk))) \<longrightarrow>
                  (\<exists>k. ev = AttentionCall k (Some t)))"
proof -
  from create_mask_rows [OF assms, of H]
  obtain t where t: "create_mask H msk S = Inr t" "length t = length msk * H"
     "\<forall>g<length msk * H. length (t ! g) = S
                \<and> (\<forall>q<S. length (t ! g ! q) = S \<and> t ! g ! q = msk ! (g div H))"
    by blast
  have "\<exists>k. ev = AttentionCall k (Some t)"
    if "heads m = H" "size1 x = S" "ev \<in> set (fst (forward m st x (Some msk)))" for m st x ev
    using that t(1) forward_events_some [of ev m st x msk t] by simp
  with t show ?thesis by blast
qed

theorem create_mask_expansion_witness:
  "length [[1, 0::real]] = 1 \<and> length ([[1, 0::real]] ! 0) = 2
   \<and> create_mask 2 [[1, 0]] 2 = Inr [[[1, 0], [1, 0]], [[1, 0], [1, 0]]]"
proof -
  have h: "\<forall>row\<in>set [[1, 0::real]]. length row = 2" by simp
  from create_mask_expansion [OF h, of 2]
  obtain t where t0: "create_mask 2 [[1, 0]] 2 = Inr t" "length t = length [[1, 0::real]] * 2"
    and rows0: "\<forall>g<length [[1, 0::real]] * 2. length (t ! g) = 2
                  \<and> (\<forall>q<2. length (t ! g ! q) = 2 \<and> t ! g ! q = [[1, 0]] ! (g div 2))"
    by blast
  from t0 have t: "create_mask 2 [[1, 0]] 2 = Inr t" "length t = 2" by simp_all
  from rows0 have rows: "\<forall>g<2. length (t ! g) = 2
                  \<and> (\<forall>q<2. length (t ! g ! q) = 2 \<and> t ! g ! q = [[1, 0]] ! (g div 2))"
    by simp
  have "t = [[[1, 0], [1, 0]], [[1, 0], [1, 0]]]"
  proof -
    have r: "length (t ! g) = 2 \<and> t ! g ! 0 = [1, 0] \<and> t ! g ! 1 = [1, 0]" if "g < 2" for g
      using rows that by (auto simp: less_2_cases_iff)
    have two: "xs = [xs ! 0, xs ! 1]" if "length xs = 2" for xs :: "'a list"
      using that by (cases xs; cases "tl xs") auto
    have "t = [t ! 0, t ! 1]" using t(2) by (rule two)
    moreover have "t ! 0 = [t ! 0 ! 0, t ! 0 ! 1]" using r [of 0] by (intro two) simp
    moreover have "t ! 1 = [t ! 1 ! 0, t ! 1 ! 1]" using r [of 1] by (intro two) simp
    ultimately show ?thesis using r [of 0] r [of 1] by simp
  qed
  with t show ?thesis by simp
qed

end
